theory Spec2Isabelle
  imports Complex_Main "HOL-Library.Char_ord" "HOL-Library.List_Lexorder" "HOL-Library.Sublist"
begin

section \<open>Python values\<close>

text \<open>
  The program is dynamically typed: template parameters, result documents and the nodes and
  edges handed to the synchroniser are arbitrary Python values. A float is a finite value,
  an infinity or NaN. A dict is an association list with its keys in insertion order; the keys
  are strings, as the annotations of the source say (\<^verbatim>\<open>Dict[str, Any]\<close>). \<open>PObj\<close> is an
  attribute-bearing object such as a NodeDTO, with its class name. A character of a
  \<open>string\<close> stands for one code point, so that the order on strings is Python's.
\<close>

datatype pyfloat = Finite rat | PosInf | NegInf | NaN

datatype pyval =
    PNone
  | PBool bool
  | PInt int
  | PFloat pyfloat
  | PStr string
  | PList "pyval list"
  | PDict "(string \<times> pyval) list"
  | PObj string "(string \<times> pyval) list"

type_synonym pydict = "(string \<times> pyval) list"

text \<open>Truth value of a Python value, as tested by \<^verbatim>\<open>if x:\<close>.\<close>

fun py_truthy :: "pyval \<Rightarrow> bool" where
  "py_truthy PNone = False"
| "py_truthy (PBool b) = b"
| "py_truthy (PInt i) = (i \<noteq> 0)"
| "py_truthy (PFloat f) = (f \<noteq> Finite 0)"
| "py_truthy (PStr s) = (s \<noteq> [])"
| "py_truthy (PList xs) = (xs \<noteq> [])"
| "py_truthy (PDict d) = (d \<noteq> [])"
| "py_truthy (PObj c attrs) = True"


fun type_name :: "pyval \<Rightarrow> string" where
  "type_name PNone = ''NoneType''"
| "type_name (PBool b) = ''bool''"
| "type_name (PInt i) = ''int''"
| "type_name (PFloat f) = ''float''"
| "type_name (PStr s) = ''str''"
| "type_name (PList xs) = ''list''"
| "type_name (PDict d) = ''dict''"
| "type_name (PObj c attrs) = c"

text \<open>\<^verbatim>\<open>d[k] = v\<close>: an existing key keeps its place, a new key goes to the end.\<close>

fun dict_set :: "string \<Rightarrow> 'v \<Rightarrow> (string \<times> 'v) list \<Rightarrow> (string \<times> 'v) list" where
  "dict_set k v [] = [(k, v)]"
| "dict_set k v (p # ps) = (if fst p = k then (k, v) # ps else p # dict_set k v ps)"

text \<open>\<^verbatim>\<open>d.update(src)\<close>: the items of \<open>src\<close> are stored in order.\<close>

fun dict_update :: "(string \<times> 'v) list \<Rightarrow> (string \<times> 'v) list \<Rightarrow> (string \<times> 'v) list" where
  "dict_update d [] = d"
| "dict_update d (p # ps) = dict_update (dict_set (fst p) (snd p) d) ps"

definition dict_keys :: "(string \<times> 'v) list \<Rightarrow> string list" where
  "dict_keys d = map fst d"

text \<open>\<^verbatim>\<open>sep.join(xs)\<close>.\<close>

fun join :: "string \<Rightarrow> string list \<Rightarrow> string" where
  "join sep [] = []"
| "join sep [x] = x"
| "join sep (x # y # ys) = x @ sep @ join sep (y # ys)"

definition dq :: string where
  "dq = [CHR 0x22]"

section \<open>Template driver (typeql_template_driver.py)\<close>

datatype driver_error =
    SpecificationError string
  | OperationError string
  | TemplateFileError string

text \<open>
  One entry of \<^verbatim>\<open>self._operations\<close>. The source stores \<^verbatim>\<open>set(params)\<close>; here the field keeps the
  list of the specification and every use goes through \<open>set\<close>, so neither order nor
  repetition of the list is observable.
\<close>

record op_spec =
  op_file :: string
  op_params :: "string list"
  op_description :: pyval
  op_output :: pyval
  op_template :: string

text \<open>
  \<^verbatim>\<open>template.format(**merged_params)\<close> is Python's own formatter and is taken as a parameter:
  it returns the text, raises \<^verbatim>\<open>KeyError\<close> with the missing name, or raises another
  exception with its message.
\<close>

datatype format_error = FormatKeyError string | FormatFailure string

type_synonym formatter = "string \<Rightarrow> pydict \<Rightarrow> format_error + string"

definition has_operation :: "(string \<rightharpoonup> op_spec) \<Rightarrow> string \<Rightarrow> bool" where
  "has_operation operations operation = (operations operation \<noteq> None)"

definition required_params :: "(string \<rightharpoonup> op_spec) \<Rightarrow> string \<Rightarrow> driver_error + string set" where
  "required_params operations operation =
     (case operations operation of
        None \<Rightarrow> Inl (OperationError (''Unknown operation '' @ dq @ operation @ dq @ ''.''))
      | Some op \<Rightarrow> Inr (set (op_params op)))"

text \<open>
  The first half of \<^verbatim>\<open>get_operation\<close>: \<^verbatim>\<open>params\<close> and \<^verbatim>\<open>kwargs\<close> are merged into one dict.
  \<^verbatim>\<open>params\<close> defaults to \<^verbatim>\<open>None\<close>; the type test is made only on a value that is true.
\<close>

definition merge_params :: "string \<Rightarrow> pyval \<Rightarrow> pydict \<Rightarrow> driver_error + pydict" where
  "merge_params operation params kwargs =
     (let merged_params = [] in
      case (if py_truthy params
            then (case params of
                    PDict d \<Rightarrow> Inr (dict_update merged_params d)
                  | _ \<Rightarrow> Inl (OperationError
                      (''Parameters for operation '' @ dq @ operation @ dq
                       @ '' must be a dict, got '' @ type_name params @ ''.'')))
            else Inr merged_params) of
        Inl e \<Rightarrow> Inl e
      | Inr merged_params \<Rightarrow>
          Inr (if kwargs \<noteq> [] then dict_update merged_params kwargs else merged_params))"

definition missing_message :: "string \<Rightarrow> string set \<Rightarrow> string" where
  "missing_message operation missing =
     ''Operation '' @ dq @ operation @ dq @ '' is missing required parameter(s): ''
     @ join '', '' (sorted_list_of_set missing) @ ''.''"

definition extra_message :: "string \<Rightarrow> string set \<Rightarrow> string" where
  "extra_message operation extra =
     ''Operation '' @ dq @ operation @ dq @ '' received unknown parameter(s): ''
     @ join '', '' (sorted_list_of_set extra) @ ''.''"

definition render :: "formatter \<Rightarrow> string \<Rightarrow> op_spec \<Rightarrow> pydict \<Rightarrow> driver_error + string" where
  "render fmt operation op merged_params =
     (case fmt (op_template op) merged_params of
        Inr query \<Rightarrow> Inr query
      | Inl (FormatKeyError k) \<Rightarrow> Inl (OperationError
          (''Missing parameter '' @ dq @ k @ dq
           @ '' when formatting template for operation '' @ dq @ operation @ dq @ ''.''))
      | Inl (FormatFailure m) \<Rightarrow> Inl (OperationError
          (''Failed to format template for operation '' @ dq @ operation @ dq @ '': '' @ m)))"

definition get_operation ::
  "formatter \<Rightarrow> (string \<rightharpoonup> op_spec) \<Rightarrow> string \<Rightarrow> pyval \<Rightarrow> pydict \<Rightarrow> driver_error + string" where
  "get_operation fmt operations operation params kwargs =
     (case operations operation of
        None \<Rightarrow> Inl (OperationError (''Unknown operation '' @ dq @ operation @ dq @ ''.''))
      | Some op \<Rightarrow>
          (case merge_params operation params kwargs of
             Inl e \<Rightarrow> Inl e
           | Inr merged_params \<Rightarrow>
               (let required = set (op_params op);
                    provided = set (dict_keys merged_params);
                    missing = required - provided;
                    extra = provided - required
                in if missing \<noteq> {} then Inl (OperationError (missing_message operation missing))
                   else if extra \<noteq> {} then Inl (OperationError (extra_message operation extra))
                   else render fmt operation op merged_params)))"

section \<open>The engine and the client state (typedb_client.py)\<close>

datatype pyexc =
    NameError | TypeError | KeyError | AttributeError | ValueError | OverflowError
  | EngineException

text \<open>
  The exception classes of the client. The message texts of the client's own exceptions are
  left out; \<open>TemplateProcessingError\<close> keeps the driver error it was raised from.
  \<open>Uncaught\<close> is any other Python exception that leaves a method.
\<close>

datatype client_error =
    TypeDBClientError
  | TemplateProcessingError driver_error
  | QueryExecutionError
  | ActiveVersionError
  | OperationIsNotAllowed
  | Uncaught pyexc

datatype tx_type = READ | WRITE | SCHEMA

text \<open>
  Every call that leaves the process: the database manager, a transaction (named by the
  position of its opening in the trace), and the read of the schema file.
  \<open>TxQuery\<close> is \<^verbatim>\<open>tx.query(q).resolve()\<close> and \<open>TxDocs\<close> is
  \<^verbatim>\<open>list(answer.as_concept_documents())\<close>. An event is a call with the flag "returned
  normally".
\<close>

datatype io_call =
    DbContains string
  | DbCreate string
  | DbDelete string
  | OpenTx string tx_type
  | TxQuery nat string
  | TxDocs nat
  | TxCommit nat
  | TxClose nat
  | ReadSchema

type_synonym event = "io_call \<times> bool"

text \<open>
  The six write methods of the client; \<open>calls\<close> below records each invocation with its
  arguments (the last one is \<^verbatim>\<open>version\<close>), the way a spy on the client would.
\<close>

datatype call =
    NodeCreate pyval pyval pyval pyval pyval pyval "string option"
  | NodeUpdate pyval pyval pyval pyval pyval pyval "string option"
  | NodeDelete pyval "string option"
  | EdgeCreate pyval pyval pyval pyval "string option"
  | EdgeUpdate pyval pyval "string option"
  | EdgeDelete pyval "string option"

text \<open>
  What a run depends on and never changes. The engine is any deterministic one: whether a
  call raises, what \<^verbatim>\<open>contains\<close> answers and which documents a read yields are functions of
  the whole history. \<open>py_str\<close>, \<open>py_float\<close> and \<open>py_ne\<close> are Python's \<^verbatim>\<open>str()\<close>,
  \<^verbatim>\<open>float()\<close> and \<^verbatim>\<open>!=\<close>.
\<close>

record env =
  db_name :: string
  investigation_name :: string
  operations :: "string \<rightharpoonup> op_spec"
  formatter :: formatter
  schema_text :: string
  raises :: "event list \<Rightarrow> io_call \<Rightarrow> bool"
  contains_answer :: "event list \<Rightarrow> string \<Rightarrow> bool"
  documents :: "event list \<Rightarrow> nat \<Rightarrow> pyval list"
  py_str :: "pyval \<Rightarrow> string"
  py_float :: "pyval \<Rightarrow> pyexc + pyval"
  py_ne :: "pyval \<Rightarrow> pyval \<Rightarrow> bool"

text \<open>
  What changes: the cached active version, the environment variable \<^verbatim>\<open>DEBUG_DB\<close>
  (read at every gated call), the trace of outside calls, and the recorded client calls.
\<close>

record client_state =
  active_version :: "string option"
  debug_db :: "string option"
  trace :: "event list"
  calls :: "call list"

type_synonym 'a action = "client_state \<Rightarrow> (client_error + 'a) \<times> client_state"

definition ret :: "'a \<Rightarrow> 'a action" where
  "ret x = (\<lambda>s. (Inr x, s))"

definition raise :: "client_error \<Rightarrow> 'a action" where
  "raise e = (\<lambda>s. (Inl e, s))"

definition bind :: "'a action \<Rightarrow> ('a \<Rightarrow> 'b action) \<Rightarrow> 'b action" where
  "bind m f = (\<lambda>s. case m s of (Inl e, s') \<Rightarrow> (Inl e, s') | (Inr x, s') \<Rightarrow> f x s')"

text \<open>A \<^verbatim>\<open>for\<close> loop whose body may raise: the first exception ends it.\<close>

fun for_each :: "'a list \<Rightarrow> ('a \<Rightarrow> unit action) \<Rightarrow> unit action" where
  "for_each [] body = ret ()"
| "for_each (x # xs) body = bind (body x) (\<lambda>_. for_each xs body)"

text \<open>An outside call: it is appended to the trace with its outcome.\<close>

definition io :: "env \<Rightarrow> io_call \<Rightarrow> client_state \<Rightarrow> bool \<times> client_state" where
  "io env c s =
     (let ok = \<not> raises env (trace s) c in (ok, s\<lparr>trace := trace s @ [(c, ok)]\<rparr>))"

definition io_action :: "env \<Rightarrow> io_call \<Rightarrow> unit action" where
  "io_action env c s =
     (case io env c s of
        (True, s') \<Rightarrow> (Inr (), s')
      | (False, s') \<Rightarrow> (Inl (Uncaught EngineException), s'))"

definition record_call :: "call \<Rightarrow> unit action" where
  "record_call c s = (Inr (), s\<lparr>calls := calls s @ [c]\<rparr>)"

subsection \<open>Helpers\<close>

definition ensure_debug_allowed :: "unit action" where
  "ensure_debug_allowed s =
     (if debug_db s = None then (Inl OperationIsNotAllowed, s) else (Inr (), s))"

text \<open>\<^verbatim>\<open>db_name or self.db_name\<close>: \<^verbatim>\<open>None\<close> and the empty string are both false.\<close>

definition name_or_default :: "env \<Rightarrow> string option \<Rightarrow> string" where
  "name_or_default env name =
     (case name of None \<Rightarrow> db_name env | Some n \<Rightarrow> if n = [] then db_name env else n)"

definition create_database :: "env \<Rightarrow> string option \<Rightarrow> unit action" where
  "create_database env name =
     bind ensure_debug_allowed (\<lambda>_ s.
       let name = name_or_default env name;
           answer = contains_answer env (trace s) name in
       case bind (io_action env (DbContains name))
                 (\<lambda>_. if \<not> answer then io_action env (DbCreate name) else ret ()) s of
         (Inl e, s') \<Rightarrow> (Inl TypeDBClientError, s')
       | (Inr u, s') \<Rightarrow> (Inr (), s'))"

definition drop_database :: "env \<Rightarrow> string option \<Rightarrow> unit action" where
  "drop_database env name =
     bind ensure_debug_allowed (\<lambda>_ s.
       let name = name_or_default env name;
           answer = contains_answer env (trace s) name in
       case bind (io_action env (DbContains name))
                 (\<lambda>_. if answer then io_action env (DbDelete name) else ret ()) s of
         (Inl e, s') \<Rightarrow> (Inl TypeDBClientError, s')
       | (Inr u, s') \<Rightarrow> (Inr (), s'))"

text \<open>
  The context manager \<^verbatim>\<open>transaction\<close>: a failed opening is a \<open>QueryExecutionError\<close>;
  otherwise the body runs and, whatever its outcome, the transaction is closed, an exception
  of \<^verbatim>\<open>close\<close> being discarded.
\<close>

definition transaction :: "env \<Rightarrow> tx_type \<Rightarrow> (nat \<Rightarrow> 'a action) \<Rightarrow> 'a action" where
  "transaction env ty body s =
     (let tx = length (trace s) in
      case io env (OpenTx (db_name env) ty) s of
        (False, s1) \<Rightarrow> (Inl QueryExecutionError, s1)
      | (True, s1) \<Rightarrow>
          (case body tx s1 of
             (r, s2) \<Rightarrow> (case io env (TxClose tx) s2 of (close_ok, s3) \<Rightarrow> (r, s3))))"

definition resolve_version :: "string option \<Rightarrow> string action" where
  "resolve_version version s =
     (case version of
        Some v \<Rightarrow> (Inr v, s)
      | None \<Rightarrow>
          (case active_version s of
             None \<Rightarrow> (Inl ActiveVersionError, s)
           | Some a \<Rightarrow> (Inr a, s)))"

definition get_active_version :: "client_state \<Rightarrow> string option" where
  "get_active_version s = active_version s"

definition build_query :: "env \<Rightarrow> string \<Rightarrow> pydict \<Rightarrow> string action" where
  "build_query env op_name params =
     (case get_operation (formatter env) (operations env) op_name PNone params of
        Inl e \<Rightarrow> raise (TemplateProcessingError e)
      | Inr query \<Rightarrow> ret query)"

definition execute_write :: "env \<Rightarrow> string \<Rightarrow> string \<Rightarrow> unit action" where
  "execute_write env op_name query s =
     (case transaction env WRITE
             (\<lambda>tx. bind (io_action env (TxQuery tx query)) (\<lambda>_. io_action env (TxCommit tx))) s of
        (Inl e, s') \<Rightarrow> (Inl QueryExecutionError, s')
      | (Inr u, s') \<Rightarrow> (Inr (), s'))"

definition execute_read :: "env \<Rightarrow> string \<Rightarrow> string \<Rightarrow> pyval list action" where
  "execute_read env op_name query s =
     (case transaction env READ
             (\<lambda>tx. bind (io_action env (TxQuery tx query))
                (\<lambda>_ s1. case io_action env (TxDocs tx) s1 of
                    (Inl e, s2) \<Rightarrow> (Inl e, s2)
                  | (Inr u, s2) \<Rightarrow> (Inr (documents env (trace s1) tx), s2))) s of
        (Inl e, s') \<Rightarrow> (Inl QueryExecutionError, s')
      | (Inr docs, s') \<Rightarrow> (Inr docs, s'))"

subsection \<open>The operations of the catalog\<close>

text \<open>The keyword arguments \<^verbatim>\<open>node_create\<close> and \<^verbatim>\<open>node_update\<close> hand to \<^verbatim>\<open>_build_query\<close>.\<close>

definition node_params ::
  "env \<Rightarrow> string \<Rightarrow> pyval \<Rightarrow> pyval \<Rightarrow> pyval \<Rightarrow> pyval \<Rightarrow> pyval \<Rightarrow> pyval \<Rightarrow> pydict" where
  "node_params env resolved_version node_id name pos_x pos_y picture_path description =
     [(''investigation_name'', PStr (investigation_name env)),
      (''version'', PStr resolved_version),
      (''node_id'', node_id),
      (''name'', name),
      (''pos_x'', pos_x),
      (''pos_y'', pos_y),
      (''picture_path'', picture_path),
      (''description'', description)]"

definition node_create ::
  "env \<Rightarrow> pyval \<Rightarrow> pyval \<Rightarrow> pyval \<Rightarrow> pyval \<Rightarrow> pyval \<Rightarrow> pyval \<Rightarrow> string option \<Rightarrow> unit action" where
  "node_create env node_id name pos_x pos_y picture_path description version =
     bind (record_call (NodeCreate node_id name pos_x pos_y picture_path description version)) (\<lambda>_.
     bind (resolve_version version) (\<lambda>resolved_version.
     bind (build_query env ''node-create''
             (node_params env resolved_version node_id name pos_x pos_y picture_path description))
       (\<lambda>query.
     execute_write env ''node-create'' query)))"

definition node_update ::
  "env \<Rightarrow> pyval \<Rightarrow> pyval \<Rightarrow> pyval \<Rightarrow> pyval \<Rightarrow> pyval \<Rightarrow> pyval \<Rightarrow> string option \<Rightarrow> unit action" where
  "node_update env node_id name pos_x pos_y picture_path description version =
     bind (record_call (NodeUpdate node_id name pos_x pos_y picture_path description version)) (\<lambda>_.
     bind (resolve_version version) (\<lambda>resolved_version.
     bind (build_query env ''node-update''
             (node_params env resolved_version node_id name pos_x pos_y picture_path description))
       (\<lambda>query.
     execute_write env ''node-update'' query)))"

definition node_delete :: "env \<Rightarrow> pyval \<Rightarrow> string option \<Rightarrow> unit action" where
  "node_delete env node_id version =
     bind (record_call (NodeDelete node_id version)) (\<lambda>_.
     bind (resolve_version version) (\<lambda>resolved_version.
     bind (build_query env ''node-delete''
             [(''investigation_name'', PStr (investigation_name env)),
              (''version'', PStr resolved_version),
              (''node_id'', node_id)]) (\<lambda>query.
     execute_write env ''node-delete'' query)))"

definition edge_create ::
  "env \<Rightarrow> pyval \<Rightarrow> pyval \<Rightarrow> pyval \<Rightarrow> pyval \<Rightarrow> string option \<Rightarrow> unit action" where
  "edge_create env edge_id node1_id node2_id description version =
     bind (record_call (EdgeCreate edge_id node1_id node2_id description version)) (\<lambda>_.
     bind (resolve_version version) (\<lambda>resolved_version.
     bind (build_query env ''edge-create''
             [(''investigation_name'', PStr (investigation_name env)),
              (''version'', PStr resolved_version),
              (''edge_id'', edge_id),
              (''node1_id'', node1_id),
              (''node2_id'', node2_id),
              (''description'', description)]) (\<lambda>query.
     execute_write env ''edge-create'' query)))"

definition edge_update :: "env \<Rightarrow> pyval \<Rightarrow> pyval \<Rightarrow> string option \<Rightarrow> unit action" where
  "edge_update env edge_id description version =
     bind (record_call (EdgeUpdate edge_id description version)) (\<lambda>_.
     bind (resolve_version version) (\<lambda>resolved_version.
     bind (build_query env ''edge-update''
             [(''investigation_name'', PStr (investigation_name env)),
              (''version'', PStr resolved_version),
              (''edge_id'', edge_id),
              (''description'', description)]) (\<lambda>query.
     execute_write env ''edge-update'' query)))"

definition edge_delete :: "env \<Rightarrow> pyval \<Rightarrow> string option \<Rightarrow> unit action" where
  "edge_delete env edge_id version =
     bind (record_call (EdgeDelete edge_id version)) (\<lambda>_.
     bind (resolve_version version) (\<lambda>resolved_version.
     bind (build_query env ''edge-delete''
             [(''investigation_name'', PStr (investigation_name env)),
              (''version'', PStr resolved_version),
              (''edge_id'', edge_id)]) (\<lambda>query.
     execute_write env ''edge-delete'' query)))"

definition graph_by_version_get :: "env \<Rightarrow> string option \<Rightarrow> pyval action" where
  "graph_by_version_get env version =
     bind (resolve_version version) (\<lambda>resolved_version.
     bind (build_query env ''graph-by-version-get''
             [(''investigation_name'', PStr (investigation_name env)),
              (''version'', PStr resolved_version)]) (\<lambda>query.
     bind (execute_read env ''graph-by-version-get'' query) (\<lambda>docs.
       if docs = [] then raise QueryExecutionError
       else if 1 < length docs then raise QueryExecutionError
       else ret (docs ! 0))))"

definition set_active_version :: "env \<Rightarrow> string \<Rightarrow> unit action" where
  "set_active_version env version =
     bind (build_query env ''set-active-version''
             [(''investigation_name'', PStr (investigation_name env)),
              (''version'', PStr version)]) (\<lambda>query.
     bind (execute_write env ''set-active-version'' query) (\<lambda>_ s.
       (Inr (), s\<lparr>active_version := Some version\<rparr>)))"

text \<open>
  In \<^verbatim>\<open>get_versions\<close> the message of the first \<^verbatim>\<open>raise\<close> is an f-string that names
  \<^verbatim>\<open>resolved_version\<close>, which this method never binds: building the message raises
  \<^verbatim>\<open>NameError\<close> before any \<open>QueryExecutionError\<close> exists.
\<close>

definition get_versions :: "env \<Rightarrow> pyval action" where
  "get_versions env =
     bind (build_query env ''get-versions''
             [(''investigation_name'', PStr (investigation_name env))]) (\<lambda>query.
     bind (execute_read env ''get-versions'' query) (\<lambda>docs.
       if docs = [] then raise (Uncaught NameError)
       else if 1 < length docs then raise QueryExecutionError
       else ret (docs ! 0)))"

text \<open>The three steps of \<^verbatim>\<open>investigation_create\<close> after the gate.\<close>

definition read_schema :: "env \<Rightarrow> string action" where
  "read_schema env s =
     (case io env ReadSchema s of
        (False, s') \<Rightarrow> (Inl TypeDBClientError, s')
      | (True, s') \<Rightarrow> (Inr (schema_text env), s'))"

definition apply_schema :: "env \<Rightarrow> string \<Rightarrow> unit action" where
  "apply_schema env text s =
     (case transaction env SCHEMA
             (\<lambda>tx. bind (io_action env (TxQuery tx text)) (\<lambda>_. io_action env (TxCommit tx))) s of
        (Inl e, s') \<Rightarrow> (Inl QueryExecutionError, s')
      | (Inr u, s') \<Rightarrow> (Inr (), s'))"

definition investigation_create :: "env \<Rightarrow> unit action" where
  "investigation_create env =
     bind ensure_debug_allowed (\<lambda>_.
     bind (read_schema env) (\<lambda>text.
     bind (apply_schema env text) (\<lambda>_.
     bind (build_query env ''investigation-create''
             [(''investigation_name'', PStr (investigation_name env))]) (\<lambda>query.
     execute_write env ''investigation-create'' query))))"

definition investigation_delete :: "env \<Rightarrow> unit action" where
  "investigation_delete env =
     bind ensure_debug_allowed (\<lambda>_.
     bind (build_query env ''investigation-delete''
             [(''investigation_name'', PStr (investigation_name env))]) (\<lambda>query.
     execute_write env ''investigation-delete'' query))"

section \<open>The diff synchroniser (update_graph)\<close>

text \<open>Plain Python steps that may raise: sequencing, and lifting into a client action.\<close>

definition pbind :: "pyexc + 'a \<Rightarrow> ('a \<Rightarrow> pyexc + 'b) \<Rightarrow> pyexc + 'b" where
  "pbind m f = (case m of Inl e \<Rightarrow> Inl e | Inr x \<Rightarrow> f x)"

definition lift_py :: "pyexc + 'a \<Rightarrow> 'a action" where
  "lift_py m = (case m of Inl e \<Rightarrow> raise (Uncaught e) | Inr x \<Rightarrow> ret x)"

text \<open>\<^verbatim>\<open>x[key]\<close> with a string key: only a dict can answer it.\<close>

fun py_getitem :: "pyval \<Rightarrow> string \<Rightarrow> pyexc + pyval" where
  "py_getitem (PDict d) key = (case map_of d key of None \<Rightarrow> Inl KeyError | Some v \<Rightarrow> Inr v)"
| "py_getitem v key = Inl TypeError"

text \<open>\<^verbatim>\<open>x.get(key)\<close>: a missing key gives \<^verbatim>\<open>None\<close>; only a dict has the method.\<close>

fun dict_get :: "pyval \<Rightarrow> string \<Rightarrow> pyexc + pyval" where
  "dict_get (PDict d) key = Inr (case map_of d key of None \<Rightarrow> PNone | Some v \<Rightarrow> v)"
| "dict_get v key = Inl AttributeError"

text \<open>\<^verbatim>\<open>for n in x\<close>: the items of a list, the keys of a dict, the characters of a string.\<close>

fun py_iter :: "pyval \<Rightarrow> pyexc + pyval list" where
  "py_iter (PList xs) = Inr xs"
| "py_iter (PDict d) = Inr (map (\<lambda>p. PStr (fst p)) d)"
| "py_iter (PStr s) = Inr (map (\<lambda>c. PStr [c]) s)"
| "py_iter v = Inl TypeError"

text \<open>
  The local helper \<^verbatim>\<open>get_field\<close>: \<^verbatim>\<open>obj.get(field)\<close> on a dict, \<^verbatim>\<open>getattr(obj, field)\<close>
  otherwise. None of the built-in types has an attribute of the names read here.
\<close>

fun get_field :: "pyval \<Rightarrow> string \<Rightarrow> pyexc + pyval" where
  "get_field (PDict d) field = Inr (case map_of d field of None \<Rightarrow> PNone | Some v \<Rightarrow> v)"
| "get_field (PObj c attrs) field =
     (case map_of attrs field of None \<Rightarrow> Inl AttributeError | Some v \<Rightarrow> Inr v)"
| "get_field v field = Inl AttributeError"

text \<open>\<^verbatim>\<open>{str(n[key]): n for n in xs}\<close>, the index of the persisted items.\<close>

fun index_db :: "env \<Rightarrow> string \<Rightarrow> pyval list \<Rightarrow> pydict \<Rightarrow> pyexc + pydict" where
  "index_db env key [] acc = Inr acc"
| "index_db env key (n # ns) acc =
     pbind (py_getitem n key) (\<lambda>v. index_db env key ns (dict_set (py_str env v) n acc))"

text \<open>The loop \<^verbatim>\<open>for n in xs: by_id[str(get_field(n, key))] = n\<close>, the index of the desired items.\<close>

fun index_new :: "env \<Rightarrow> string \<Rightarrow> pyval list \<Rightarrow> pydict \<Rightarrow> pyexc + pydict" where
  "index_new env key [] acc = Inr acc"
| "index_new env key (n # ns) acc =
     pbind (get_field n key) (\<lambda>v. index_new env key ns (dict_set (py_str env v) n acc))"

text \<open>The five values read from a desired node, in the order the source evaluates them.\<close>

definition node_fields :: "env \<Rightarrow> pyval \<Rightarrow> pyexc + (pyval \<times> pyval \<times> pyval \<times> pyval \<times> pyval)" where
  "node_fields env node_obj =
     pbind (get_field node_obj ''name'') (\<lambda>name.
     pbind (get_field node_obj ''pos_x'') (\<lambda>x.
     pbind (py_float env x) (\<lambda>pos_x.
     pbind (get_field node_obj ''pos_y'') (\<lambda>y.
     pbind (py_float env y) (\<lambda>pos_y.
     pbind (get_field node_obj ''picture_path'') (\<lambda>picture_path.
     pbind (get_field node_obj ''description'') (\<lambda>description.
     Inr (name, pos_x, pos_y, picture_path, description))))))))"

text \<open>\<^verbatim>\<open>need_update\<close>: a chain of \<^verbatim>\<open>or\<close>, so a later operand is evaluated only if needed.\<close>

definition need_update ::
  "env \<Rightarrow> pyval \<Rightarrow> pyval \<times> pyval \<times> pyval \<times> pyval \<times> pyval \<Rightarrow> pyexc + bool" where
  "need_update env db_node new =
     (case new of (new_name, new_pos_x, new_pos_y, new_picture, new_desc) \<Rightarrow>
       pbind (dict_get db_node ''name'') (\<lambda>db_name.
       if py_ne env db_name new_name then Inr True else
       pbind (dict_get db_node ''pos_x'') (\<lambda>x.
       pbind (py_float env x) (\<lambda>db_pos_x.
       if py_ne env db_pos_x new_pos_x then Inr True else
       pbind (dict_get db_node ''pos_y'') (\<lambda>y.
       pbind (py_float env y) (\<lambda>db_pos_y.
       if py_ne env db_pos_y new_pos_y then Inr True else
       pbind (dict_get db_node ''picture_path'') (\<lambda>db_picture.
       if py_ne env db_picture new_picture then Inr True else
       pbind (dict_get db_node ''description'') (\<lambda>db_desc.
       Inr (py_ne env db_desc new_desc)))))))))"

subsection \<open>The six loops\<close>

definition delete_nodes :: "env \<Rightarrow> string \<Rightarrow> pydict \<Rightarrow> pydict \<Rightarrow> unit action" where
  "delete_nodes env resolved_version db_nodes_by_id new_nodes_by_id =
     for_each (dict_keys db_nodes_by_id) (\<lambda>node_id_str.
       if map_of new_nodes_by_id node_id_str = None
       then node_delete env (PStr node_id_str) (Some resolved_version)
       else ret ())"

definition create_nodes :: "env \<Rightarrow> string \<Rightarrow> pydict \<Rightarrow> pydict \<Rightarrow> unit action" where
  "create_nodes env resolved_version db_nodes_by_id new_nodes_by_id =
     for_each new_nodes_by_id (\<lambda>item.
       case item of (node_id_str, node_obj) \<Rightarrow>
       if map_of db_nodes_by_id node_id_str = None
       then bind (lift_py (node_fields env node_obj)) (\<lambda>new.
              case new of (name, pos_x, pos_y, picture_path, description) \<Rightarrow>
              node_create env (PStr node_id_str) name pos_x pos_y picture_path description
                (Some resolved_version))
       else ret ())"

definition update_nodes :: "env \<Rightarrow> string \<Rightarrow> pydict \<Rightarrow> pydict \<Rightarrow> unit action" where
  "update_nodes env resolved_version db_nodes_by_id new_nodes_by_id =
     for_each db_nodes_by_id (\<lambda>item.
       case item of (node_id_str, db_node) \<Rightarrow>
       (case map_of new_nodes_by_id node_id_str of
          None \<Rightarrow> ret ()
        | Some node_obj \<Rightarrow>
            bind (lift_py (node_fields env node_obj)) (\<lambda>new.
            bind (lift_py (need_update env db_node new)) (\<lambda>changed.
              if changed
              then (case new of (new_name, new_pos_x, new_pos_y, new_picture, new_desc) \<Rightarrow>
                      node_update env (PStr node_id_str) new_name new_pos_x new_pos_y
                        new_picture new_desc (Some resolved_version))
              else ret ()))))"

definition delete_edges :: "env \<Rightarrow> string \<Rightarrow> pydict \<Rightarrow> pydict \<Rightarrow> unit action" where
  "delete_edges env resolved_version db_edges_by_id new_edges_by_id =
     for_each (dict_keys db_edges_by_id) (\<lambda>edge_id_str.
       if map_of new_edges_by_id edge_id_str = None
       then edge_delete env (PStr edge_id_str) (Some resolved_version)
       else ret ())"

definition create_edges :: "env \<Rightarrow> string \<Rightarrow> pydict \<Rightarrow> pydict \<Rightarrow> unit action" where
  "create_edges env resolved_version db_edges_by_id new_edges_by_id =
     for_each new_edges_by_id (\<lambda>item.
       case item of (edge_id_str, edge_obj) \<Rightarrow>
       if map_of db_edges_by_id edge_id_str = None
       then bind (lift_py (get_field edge_obj ''node1'')) (\<lambda>n1.
            bind (lift_py (get_field edge_obj ''node2'')) (\<lambda>n2.
            bind (lift_py (get_field edge_obj ''description'')) (\<lambda>description.
              edge_create env (PStr edge_id_str) (PStr (py_str env n1)) (PStr (py_str env n2))
                description (Some resolved_version))))
       else ret ())"

text \<open>
  The values the last loop compares for one edge: the persisted endpoints and description,
  then the desired ones.
\<close>

definition edge_fields ::
  "env \<Rightarrow> pyval \<Rightarrow> pyval \<Rightarrow> pyexc + (string \<times> string \<times> pyval \<times> string \<times> string \<times> pyval)" where
  "edge_fields env db_edge edge_obj =
     pbind (dict_get db_edge ''node1'') (\<lambda>a.
     pbind (dict_get db_edge ''node2'') (\<lambda>b.
     pbind (dict_get db_edge ''description'') (\<lambda>db_desc.
     pbind (get_field edge_obj ''node1'') (\<lambda>c.
     pbind (get_field edge_obj ''node2'') (\<lambda>d.
     pbind (get_field edge_obj ''description'') (\<lambda>new_desc.
     Inr (py_str env a, py_str env b, db_desc, py_str env c, py_str env d, new_desc)))))))"

definition update_edges :: "env \<Rightarrow> string \<Rightarrow> pydict \<Rightarrow> pydict \<Rightarrow> unit action" where
  "update_edges env resolved_version db_edges_by_id new_edges_by_id =
     for_each db_edges_by_id (\<lambda>item.
       case item of (edge_id_str, db_edge) \<Rightarrow>
       (case map_of new_edges_by_id edge_id_str of
          None \<Rightarrow> ret ()
        | Some edge_obj \<Rightarrow>
            bind (lift_py (edge_fields env db_edge edge_obj)) (\<lambda>fields.
              case fields of (db_node1, db_node2, db_desc, new_node1, new_node2, new_desc) \<Rightarrow>
              (let endpoints_changed = (db_node1 \<noteq> new_node1 \<or> db_node2 \<noteq> new_node2);
                   desc_changed = py_ne env db_desc new_desc
               in if endpoints_changed
                  then bind (edge_delete env (PStr edge_id_str) (Some resolved_version)) (\<lambda>_.
                         edge_create env (PStr edge_id_str) (PStr new_node1) (PStr new_node2)
                           new_desc (Some resolved_version))
                  else if desc_changed
                  then edge_update env (PStr edge_id_str) new_desc (Some resolved_version)
                  else ret ()))))"

text \<open>The four indexes, built before any write: persisted nodes, desired nodes, persisted
  edges, desired edges.\<close>

definition build_indexes ::
  "env \<Rightarrow> pyval \<Rightarrow> pyval list \<Rightarrow> pyval list \<Rightarrow> pyexc + (pydict \<times> pydict \<times> pydict \<times> pydict)" where
  "build_indexes env db_graph nodes edges =
     pbind (py_getitem db_graph ''nodes'') (\<lambda>db_nodes.
     pbind (py_getitem db_graph ''edges'') (\<lambda>db_edges.
     pbind (py_iter db_nodes) (\<lambda>db_node_list.
     pbind (index_db env ''node_id'' db_node_list []) (\<lambda>db_nodes_by_id.
     pbind (index_new env ''node_id'' nodes []) (\<lambda>new_nodes_by_id.
     pbind (py_iter db_edges) (\<lambda>db_edge_list.
     pbind (index_db env ''edge_id'' db_edge_list []) (\<lambda>db_edges_by_id.
     pbind (index_new env ''edge_id'' edges []) (\<lambda>new_edges_by_id.
     Inr (db_nodes_by_id, new_nodes_by_id, db_edges_by_id, new_edges_by_id)))))))))"

definition sync_indexes :: "env \<Rightarrow> string \<Rightarrow> pydict \<times> pydict \<times> pydict \<times> pydict \<Rightarrow> unit action" where
  "sync_indexes env resolved_version idx =
     (case idx of (db_nodes_by_id, new_nodes_by_id, db_edges_by_id, new_edges_by_id) \<Rightarrow>
       bind (delete_nodes env resolved_version db_nodes_by_id new_nodes_by_id) (\<lambda>_.
       bind (create_nodes env resolved_version db_nodes_by_id new_nodes_by_id) (\<lambda>_.
       bind (update_nodes env resolved_version db_nodes_by_id new_nodes_by_id) (\<lambda>_.
       bind (delete_edges env resolved_version db_edges_by_id new_edges_by_id) (\<lambda>_.
       bind (create_edges env resolved_version db_edges_by_id new_edges_by_id) (\<lambda>_.
       update_edges env resolved_version db_edges_by_id new_edges_by_id))))))"

definition update_graph :: "env \<Rightarrow> string \<Rightarrow> pyval list \<Rightarrow> pyval list \<Rightarrow> unit action" where
  "update_graph env version nodes edges =
     bind (graph_by_version_get env (Some version)) (\<lambda>db_graph.
     bind (lift_py (build_indexes env db_graph nodes edges)) (\<lambda>idx.
     bind (resolve_version (Some version)) (\<lambda>resolved_version.
     sync_indexes env resolved_version idx)))"

section \<open>Reading a trace\<close>

text \<open>
  The transactions a trace leaves open: those whose opening returned normally and for which
  no \<^verbatim>\<open>close\<close> was called afterwards. A transaction is named by the position of its opening.
\<close>

fun is_open :: "event \<Rightarrow> bool" where
  "is_open (OpenTx db ty, ok) = ok"
| "is_open (c, ok) = False"

definition open_txs :: "event list \<Rightarrow> nat list" where
  "open_txs tr = filter (\<lambda>i. is_open (tr ! i)) [0..<length tr]"

definition closed_after :: "event list \<Rightarrow> nat \<Rightarrow> bool" where
  "closed_after tr tx = (TxClose tx \<in> set (map fst (drop (Suc tx) tr)))"

definition leaked :: "event list \<Rightarrow> nat list" where
  "leaked tr = filter (\<lambda>tx. \<not> closed_after tr tx) (open_txs tr)"

text \<open>The events and the client calls a run from \<open>s\<close> to \<open>s'\<close> has added.\<close>

definition new_events :: "client_state \<Rightarrow> client_state \<Rightarrow> event list" where
  "new_events s s' = drop (length (trace s)) (trace s')"

definition new_calls :: "client_state \<Rightarrow> client_state \<Rightarrow> call list" where
  "new_calls s s' = drop (length (calls s)) (calls s')"

section \<open>Reading the recorded calls\<close>

text \<open>
  The six phases of a synchronisation, by the kind of the call, and the order in which the
  kinds may follow one another if no call of an earlier phase comes after one of a later
  phase.
\<close>

fun phase :: "call \<Rightarrow> nat" where
  "phase (NodeDelete i v) = 0"
| "phase (NodeCreate i n x y p d v) = 1"
| "phase (NodeUpdate i n x y p d v) = 2"
| "phase (EdgeDelete i v) = 3"
| "phase (EdgeCreate i a b d v) = 4"
| "phase (EdgeUpdate i d v) = 5"

definition phase_ordered :: "call list \<Rightarrow> bool" where
  "phase_ordered cs = sorted (map phase cs)"

text \<open>
  What the last loop may record: for each edge a description update, or a deletion followed
  at once by the creation under the same id. \<open>paired\<close> holds of complete steps only;
  \<open>reconciled\<close> also admits a final deletion whose creation was never reached because the
  deletion raised.
\<close>

fun paired :: "call list \<Rightarrow> bool" where
  "paired [] = True"
| "paired (EdgeUpdate i d v # cs) = paired cs"
| "paired (EdgeDelete i v # EdgeCreate j a b d w # cs) = (i = j \<and> paired cs)"
| "paired cs = False"

fun reconciled :: "call list \<Rightarrow> bool" where
  "reconciled [] = True"
| "reconciled (EdgeUpdate i d v # cs) = reconciled cs"
| "reconciled [EdgeDelete i v] = True"
| "reconciled (EdgeDelete i v # EdgeCreate j a b d w # cs) = (i = j \<and> reconciled cs)"
| "reconciled cs = False"

section \<open>The persisted and the desired state as the source compares them\<close>

text \<open>
  Two nodes are the same when the comparison of the source finds nothing to update: name,
  picture path and description compare equal with \<^verbatim>\<open>!=\<close>, and so do both positions once
  converted by \<^verbatim>\<open>float()\<close>. Two edges are the same when their endpoints are equal as
  strings and their descriptions compare equal.
\<close>

definition same_node :: "env \<Rightarrow> pyval \<Rightarrow> pyval \<Rightarrow> bool" where
  "same_node env db_node node_obj =
     (pbind (node_fields env node_obj) (need_update env db_node) = Inr False)"

definition same_edge :: "env \<Rightarrow> pyval \<Rightarrow> pyval \<Rightarrow> bool" where
  "same_edge env db_edge edge_obj =
     (case edge_fields env db_edge edge_obj of
        Inl e \<Rightarrow> False
      | Inr (db_node1, db_node2, db_desc, new_node1, new_node2, new_desc) \<Rightarrow>
          db_node1 = new_node1 \<and> db_node2 = new_node2 \<and> \<not> py_ne env db_desc new_desc)"

text \<open>
  An id differs between the two indexes when it is on one side only, or on both with
  entities that are not the same.
\<close>

definition node_differs :: "env \<Rightarrow> pydict \<Rightarrow> pydict \<Rightarrow> string \<Rightarrow> bool" where
  "node_differs env db_nodes_by_id new_nodes_by_id k =
     (case (map_of db_nodes_by_id k, map_of new_nodes_by_id k) of
        (None, None) \<Rightarrow> False
      | (Some d, Some n) \<Rightarrow> \<not> same_node env d n
      | _ \<Rightarrow> True)"

definition edge_differs :: "env \<Rightarrow> pydict \<Rightarrow> pydict \<Rightarrow> string \<Rightarrow> bool" where
  "edge_differs env db_edges_by_id new_edges_by_id k =
     (case (map_of db_edges_by_id k, map_of new_edges_by_id k) of
        (None, None) \<Rightarrow> False
      | (Some d, Some e) \<Rightarrow> \<not> same_edge env d e
      | _ \<Rightarrow> True)"

text \<open>
  The persisted state equals the desired one: the indexes can be built and no id differs.
\<close>

definition same_graph :: "env \<Rightarrow> pyval \<Rightarrow> pyval list \<Rightarrow> pyval list \<Rightarrow> bool" where
  "same_graph env db_graph nodes edges =
     (case build_indexes env db_graph nodes edges of
        Inl e \<Rightarrow> False
      | Inr (db_nodes_by_id, new_nodes_by_id, db_edges_by_id, new_edges_by_id) \<Rightarrow>
          list_all (\<lambda>k. \<not> node_differs env db_nodes_by_id new_nodes_by_id k)
            (dict_keys db_nodes_by_id @ dict_keys new_nodes_by_id)
        \<and> list_all (\<lambda>k. \<not> edge_differs env db_edges_by_id new_edges_by_id k)
            (dict_keys db_edges_by_id @ dict_keys new_edges_by_id))"

text \<open>A recorded call is about an entity that differs.\<close>

fun differs_id :: "(string \<Rightarrow> bool) \<Rightarrow> pyval \<Rightarrow> bool" where
  "differs_id differs (PStr k) = differs k"
| "differs_id differs v = False"

fun call_differs :: "env \<Rightarrow> pydict \<times> pydict \<times> pydict \<times> pydict \<Rightarrow> call \<Rightarrow> bool" where
  "call_differs env (dbn, newn, dbe, newe) (NodeCreate i n x y p d v) =
     differs_id (node_differs env dbn newn) i"
| "call_differs env (dbn, newn, dbe, newe) (NodeUpdate i n x y p d v) =
     differs_id (node_differs env dbn newn) i"
| "call_differs env (dbn, newn, dbe, newe) (NodeDelete i v) =
     differs_id (node_differs env dbn newn) i"
| "call_differs env (dbn, newn, dbe, newe) (EdgeCreate i a b d v) =
     differs_id (edge_differs env dbe newe) i"
| "call_differs env (dbn, newn, dbe, newe) (EdgeUpdate i d v) =
     differs_id (edge_differs env dbe newe) i"
| "call_differs env (dbn, newn, dbe, newe) (EdgeDelete i v) =
     differs_id (edge_differs env dbe newe) i"

text \<open>A call on the node of a given id.\<close>

fun on_node :: "string \<Rightarrow> call \<Rightarrow> bool" where
  "on_node k (NodeCreate i n x y p d v) = (i = PStr k)"
| "on_node k (NodeUpdate i n x y p d v) = (i = PStr k)"
| "on_node k (NodeDelete i v) = (i = PStr k)"
| "on_node k c = False"

text \<open>
  The values a node call carries are the five fields read from a desired node: name, the two
  positions, picture path and description.
\<close>

fun carries_fields :: "env \<Rightarrow> pyval list \<Rightarrow> call \<Rightarrow> bool" where
  "carries_fields env objs (NodeCreate i n x y p d v) =
     (\<exists>obj \<in> set objs. node_fields env obj = Inr (n, x, y, p, d))"
| "carries_fields env objs (NodeUpdate i n x y p d v) =
     (\<exists>obj \<in> set objs. node_fields env obj = Inr (n, x, y, p, d))"
| "carries_fields env objs c = True"

text \<open>A desired node or edge with its \<^verbatim>\<open>node_type\<close> taken away.\<close>

fun without_node_type :: "pyval \<Rightarrow> pyval" where
  "without_node_type (PDict d) = PDict (filter (\<lambda>p. fst p \<noteq> ''node_type'') d)"
| "without_node_type (PObj c attrs) = PObj c (filter (\<lambda>p. fst p \<noteq> ''node_type'') attrs)"
| "without_node_type v = v"

text \<open>
  A proof device: every run of \<open>m\<close> appends to the recorded calls a piece that satisfies
  \<open>P\<close> when the run returns and \<open>Q\<close> when it raises.
\<close>

definition emits :: "'a action \<Rightarrow> ('a \<Rightarrow> call list \<Rightarrow> bool) \<Rightarrow> (call list \<Rightarrow> bool) \<Rightarrow> bool" where
  "emits m P Q = (\<forall>s r s'. m s = (r, s') \<longrightarrow>
     (\<exists>seg. calls s' = calls s @ seg \<and> (case r of Inr x \<Rightarrow> P x seg | Inl e \<Rightarrow> Q seg)))"

section \<open>The synchronisation as the specification words it\<close>

text \<open>
  The definitions of this section are written from the specification, not from the source:
  when a persisted and a desired entity are equal, the two states indexed by id, and the calls
  one synchronisation is to make. The theorems below compare them with \<^verbatim>\<open>update_graph\<close>.
\<close>

text \<open>
  The value an entity gives for a field. A persisted entity is a document: it gives the value
  of its entry, \<^verbatim>\<open>None\<close> when it has no such entry. A desired entity is a document too, or an
  object, which gives the attribute of that name.
\<close>

fun stored_value :: "pyval \<Rightarrow> string \<Rightarrow> pyval option" where
  "stored_value (PDict d) f = Some (case map_of d f of None \<Rightarrow> PNone | Some v \<Rightarrow> v)"
| "stored_value v f = None"

fun field_value :: "pyval \<Rightarrow> string \<Rightarrow> pyval option" where
  "field_value (PDict d) f = Some (case map_of d f of None \<Rightarrow> PNone | Some v \<Rightarrow> v)"
| "field_value (PObj c attrs) f = map_of attrs f"
| "field_value v f = None"

text \<open>
  Field comparison is by value equality: a field is equal on both sides when both sides
  give a value and \<^verbatim>\<open>!=\<close> does not hold of the two; a position is compared as a float, an
  endpoint as a string.
\<close>

definition equal_field :: "env \<Rightarrow> pyval \<Rightarrow> pyval \<Rightarrow> string \<Rightarrow> bool" where
  "equal_field env a b f =
     (case (stored_value a f, field_value b f) of
        (Some x, Some y) \<Rightarrow> \<not> py_ne env x y
      | _ \<Rightarrow> False)"

definition equal_position :: "env \<Rightarrow> pyval \<Rightarrow> pyval \<Rightarrow> string \<Rightarrow> bool" where
  "equal_position env a b f =
     (case (stored_value a f, field_value b f) of
        (Some x, Some y) \<Rightarrow>
          (case (py_float env x, py_float env y) of
             (Inr u, Inr v) \<Rightarrow> \<not> py_ne env u v
           | _ \<Rightarrow> False)
      | _ \<Rightarrow> False)"

definition equal_endpoint :: "env \<Rightarrow> pyval \<Rightarrow> pyval \<Rightarrow> string \<Rightarrow> bool" where
  "equal_endpoint env a b f =
     (case (stored_value a f, field_value b f) of
        (Some x, Some y) \<Rightarrow> py_str env x = py_str env y
      | _ \<Rightarrow> False)"

text \<open>
  A persisted node \<open>a\<close> equals a desired node \<open>b\<close> when name, both positions, picture path
  and description are equal; a persisted edge equals a desired edge when both endpoints and
  the description are equal.
\<close>

definition nodes_equal :: "env \<Rightarrow> pyval \<Rightarrow> pyval \<Rightarrow> bool" where
  "nodes_equal env a b =
     (equal_field env a b ''name'' \<and> equal_position env a b ''pos_x''
      \<and> equal_position env a b ''pos_y'' \<and> equal_field env a b ''picture_path''
      \<and> equal_field env a b ''description'')"

definition edges_equal :: "env \<Rightarrow> pyval \<Rightarrow> pyval \<Rightarrow> bool" where
  "edges_equal env a b =
     (equal_endpoint env a b ''node1'' \<and> equal_endpoint env a b ''node2''
      \<and> equal_field env a b ''description'')"

text \<open>
  The two states indexed by id. The persisted document holds a list of node documents and a
  list of edge documents, each with an entry for its id; a desired entity gives its id as a
  field. An id is the string of its value, and of two entities with one id the later one
  stands for the id.
\<close>

fun entry :: "pyval \<Rightarrow> string \<Rightarrow> pyval option" where
  "entry (PDict d) k = map_of d k"
| "entry v k = None"

fun stored_list :: "pyval \<Rightarrow> string \<Rightarrow> pyval list option" where
  "stored_list (PDict d) f = (case map_of d f of Some (PList xs) \<Rightarrow> Some xs | _ \<Rightarrow> None)"
| "stored_list v f = None"

fun by_id :: "env \<Rightarrow> (pyval \<Rightarrow> pyval option) \<Rightarrow> pyval list \<Rightarrow> pydict option" where
  "by_id env idf [] = Some []"
| "by_id env idf (x # xs) =
     (case idf x of
        None \<Rightarrow> None
      | Some i \<Rightarrow> map_option (\<lambda>kvs. (py_str env i, x) # kvs) (by_id env idf xs))"

definition persisted :: "env \<Rightarrow> pyval \<Rightarrow> string \<Rightarrow> string \<Rightarrow> pydict option" where
  "persisted env db_graph coll key =
     (case stored_list db_graph coll of
        None \<Rightarrow> None
      | Some xs \<Rightarrow> map_option (dict_update []) (by_id env (\<lambda>x. entry x key) xs))"

definition desired :: "env \<Rightarrow> string \<Rightarrow> pyval list \<Rightarrow> pydict option" where
  "desired env key xs = map_option (dict_update []) (by_id env (\<lambda>x. field_value x key) xs)"

text \<open>Persisted nodes, desired nodes, persisted edges and desired edges, each by id.\<close>

definition indexes ::
  "env \<Rightarrow> pyval \<Rightarrow> pyval list \<Rightarrow> pyval list \<Rightarrow> (pydict \<times> pydict \<times> pydict \<times> pydict) option" where
  "indexes env db_graph nodes edges =
     (case (persisted env db_graph ''nodes'' ''node_id'', desired env ''node_id'' nodes,
            persisted env db_graph ''edges'' ''edge_id'', desired env ''edge_id'' edges) of
        (Some pn, Some dn, Some pe, Some de) \<Rightarrow> Some (pn, dn, pe, de)
      | _ \<Rightarrow> None)"

text \<open>
  The persisted state equals the desired state: both have the same ids, and under every id
  the persisted entity equals the desired one.
\<close>

definition agree :: "(pyval \<Rightarrow> pyval \<Rightarrow> bool) \<Rightarrow> pydict \<Rightarrow> pydict \<Rightarrow> bool" where
  "agree eq P D =
     (set (dict_keys P) = set (dict_keys D)
      \<and> list_all (\<lambda>k. case (map_of P k, map_of D k) of
                        (Some a, Some b) \<Rightarrow> eq a b
                      | _ \<Rightarrow> False) (dict_keys P))"

definition state_equal :: "env \<Rightarrow> pyval \<Rightarrow> pyval list \<Rightarrow> pyval list \<Rightarrow> bool" where
  "state_equal env db_graph nodes edges =
     (case indexes env db_graph nodes edges of
        None \<Rightarrow> False
      | Some (pn, dn, pe, de) \<Rightarrow> agree (nodes_equal env) pn dn \<and> agree (edges_equal env) pe de)"

text \<open>
  The entity of an id differs between the two states when it is on one side only, or on both
  sides with entities that are not equal. A call is justified when the id it names is one
  whose entity differs.
\<close>

definition differs :: "(pyval \<Rightarrow> pyval \<Rightarrow> bool) \<Rightarrow> pydict \<Rightarrow> pydict \<Rightarrow> string \<Rightarrow> bool" where
  "differs eq P D k =
     (case (map_of P k, map_of D k) of
        (None, None) \<Rightarrow> False
      | (Some a, Some b) \<Rightarrow> \<not> eq a b
      | _ \<Rightarrow> True)"

fun justified :: "env \<Rightarrow> pydict \<times> pydict \<times> pydict \<times> pydict \<Rightarrow> call \<Rightarrow> bool" where
  "justified env (pn, dn, pe, de) (NodeCreate i n x y p d v) =
     differs_id (differs (nodes_equal env) pn dn) i"
| "justified env (pn, dn, pe, de) (NodeUpdate i n x y p d v) =
     differs_id (differs (nodes_equal env) pn dn) i"
| "justified env (pn, dn, pe, de) (NodeDelete i v) =
     differs_id (differs (nodes_equal env) pn dn) i"
| "justified env (pn, dn, pe, de) (EdgeCreate i a b d v) =
     differs_id (differs (edges_equal env) pe de) i"
| "justified env (pn, dn, pe, de) (EdgeUpdate i d v) =
     differs_id (differs (edges_equal env) pe de) i"
| "justified env (pn, dn, pe, de) (EdgeDelete i v) =
     differs_id (differs (edges_equal env) pe de) i"

text \<open>
  The values a call carries: of a desired node its name, its two positions as floats, its
  picture path and its description; of a desired edge its two endpoints as strings and its
  description.
\<close>

definition node_values :: "env \<Rightarrow> pyval \<Rightarrow> (pyval \<times> pyval \<times> pyval \<times> pyval \<times> pyval) option" where
  "node_values env n =
     (case (field_value n ''name'', field_value n ''pos_x'', field_value n ''pos_y'',
            field_value n ''picture_path'', field_value n ''description'') of
        (Some name, Some x, Some y, Some picture_path, Some description) \<Rightarrow>
          (case (py_float env x, py_float env y) of
             (Inr pos_x, Inr pos_y) \<Rightarrow> Some (name, pos_x, pos_y, picture_path, description)
           | _ \<Rightarrow> None)
      | _ \<Rightarrow> None)"

definition edge_values :: "env \<Rightarrow> pyval \<Rightarrow> (pyval \<times> pyval \<times> pyval) option" where
  "edge_values env e =
     (case (field_value e ''node1'', field_value e ''node2'', field_value e ''description'') of
        (Some a, Some b, Some description) \<Rightarrow>
          Some (PStr (py_str env a), PStr (py_str env b), description)
      | _ \<Rightarrow> None)"

text \<open>
  The six phases. Nodes: a persisted id that is not desired is deleted; a desired id that is
  not persisted is created; an id on both sides is updated if the two nodes are not equal.
  Edges: a persisted id that is not desired is deleted; a desired id that is not persisted is
  created; an id on both sides is deleted and created again under the same id if an endpoint
  differs, and otherwise updated if the description differs. \<open>pn\<close>, \<open>dn\<close>, \<open>pe\<close> and \<open>de\<close>
  are the persisted and the desired nodes and edges by id; \<open>v\<close> is the version.
\<close>

definition node_deletions :: "string \<Rightarrow> pydict \<times> pydict \<times> pydict \<times> pydict \<Rightarrow> call list" where
  "node_deletions v idx =
     (case idx of (pn, dn, pe, de) \<Rightarrow>
        concat (map (\<lambda>k. if map_of dn k = None then [NodeDelete (PStr k) (Some v)] else [])
          (dict_keys pn)))"

definition node_creations :: "env \<Rightarrow> string \<Rightarrow> pydict \<times> pydict \<times> pydict \<times> pydict \<Rightarrow> call list" where
  "node_creations env v idx =
     (case idx of (pn, dn, pe, de) \<Rightarrow>
        concat (map (\<lambda>(k, n).
          if map_of pn k = None
          then (case node_values env n of
                  None \<Rightarrow> []
                | Some (name, pos_x, pos_y, picture_path, description) \<Rightarrow>
                    [NodeCreate (PStr k) name pos_x pos_y picture_path description (Some v)])
          else []) dn))"

definition node_updates :: "env \<Rightarrow> string \<Rightarrow> pydict \<times> pydict \<times> pydict \<times> pydict \<Rightarrow> call list" where
  "node_updates env v idx =
     (case idx of (pn, dn, pe, de) \<Rightarrow>
        concat (map (\<lambda>(k, a).
          case map_of dn k of
            None \<Rightarrow> []
          | Some n \<Rightarrow>
              if nodes_equal env a n then []
              else (case node_values env n of
                      None \<Rightarrow> []
                    | Some (name, pos_x, pos_y, picture_path, description) \<Rightarrow>
                        [NodeUpdate (PStr k) name pos_x pos_y picture_path description (Some v)]))
          pn))"

definition edge_deletions :: "string \<Rightarrow> pydict \<times> pydict \<times> pydict \<times> pydict \<Rightarrow> call list" where
  "edge_deletions v idx =
     (case idx of (pn, dn, pe, de) \<Rightarrow>
        concat (map (\<lambda>k. if map_of de k = None then [EdgeDelete (PStr k) (Some v)] else [])
          (dict_keys pe)))"

definition edge_creations :: "env \<Rightarrow> string \<Rightarrow> pydict \<times> pydict \<times> pydict \<times> pydict \<Rightarrow> call list" where
  "edge_creations env v idx =
     (case idx of (pn, dn, pe, de) \<Rightarrow>
        concat (map (\<lambda>(k, e).
          if map_of pe k = None
          then (case edge_values env e of
                  None \<Rightarrow> []
                | Some (node1, node2, description) \<Rightarrow>
                    [EdgeCreate (PStr k) node1 node2 description (Some v)])
          else []) de))"

definition edge_reconciliation ::
  "env \<Rightarrow> string \<Rightarrow> pydict \<times> pydict \<times> pydict \<times> pydict \<Rightarrow> call list" where
  "edge_reconciliation env v idx =
     (case idx of (pn, dn, pe, de) \<Rightarrow>
        concat (map (\<lambda>(k, a).
          case map_of de k of
            None \<Rightarrow> []
          | Some e \<Rightarrow>
              (case edge_values env e of
                 None \<Rightarrow> []
               | Some (node1, node2, description) \<Rightarrow>
                   if \<not> (equal_endpoint env a e ''node1'' \<and> equal_endpoint env a e ''node2'')
                   then [EdgeDelete (PStr k) (Some v),
                         EdgeCreate (PStr k) node1 node2 description (Some v)]
                   else if \<not> equal_field env a e ''description''
                   then [EdgeUpdate (PStr k) description (Some v)]
                   else []))
          pe))"

text \<open>The calls of one synchronisation: the six phases, one after the other.\<close>

definition plan :: "env \<Rightarrow> string \<Rightarrow> pydict \<times> pydict \<times> pydict \<times> pydict \<Rightarrow> call list" where
  "plan env v idx =
     node_deletions v idx @ node_creations env v idx @ node_updates env v idx
     @ edge_deletions v idx @ edge_creations env v idx @ edge_reconciliation env v idx"

text \<open>
  A proof device: a run of \<open>m\<close> that returns has recorded exactly the calls \<open>cs\<close>, and a run
  that raises has recorded the first of them, up to the call that raised or to the step
  before the one that raised.
\<close>

definition tracks :: "'a action \<Rightarrow> call list \<Rightarrow> bool" where
  "tracks m cs = emits m (\<lambda>u seg. seg = cs) (\<lambda>seg. prefix seg cs)"

section \<open>A concrete environment for the examples\<close>

text \<open>
  A catalog whose templates hold no placeholder (Python's formatter returns such a template
  unchanged), an engine given by the calls that raise and the documents a read yields, and
  the built-ins on the values the examples use: \<open>str_basic\<close> is \<^verbatim>\<open>str()\<close> on strings,
  integers, \<^verbatim>\<open>None\<close> and booleans; \<open>float_basic\<close> is \<^verbatim>\<open>float()\<close> on floats, booleans,
  integers up to \<open>2^53\<close> in magnitude and values that are no numbers; \<open>ne_basic\<close> is \<^verbatim>\<open>!=\<close> on
  values of one scalar type (NaN differs from everything, itself included).
\<close>

definition plain_format :: formatter where
  "plain_format template params = Inr template"

definition demo_op :: "string \<Rightarrow> string list \<Rightarrow> string \<times> op_spec" where
  "demo_op name ps =
     (name, \<lparr>op_file = name @ ''.tql'', op_params = ps, op_description = PNone,
              op_output = PNone, op_template = name\<rparr>)"

definition demo_operations :: "string \<rightharpoonup> op_spec" where
  "demo_operations = map_of
     [demo_op ''set-active-version'' [''investigation_name'', ''version''],
      demo_op ''get-versions'' [''investigation_name''],
      demo_op ''graph-by-version-get'' [''investigation_name'', ''version''],
      demo_op ''node-create'' [''investigation_name'', ''version'', ''node_id'', ''name'',
         ''pos_x'', ''pos_y'', ''picture_path'', ''description''],
      demo_op ''node-update'' [''investigation_name'', ''version'', ''node_id'', ''name'',
         ''pos_x'', ''pos_y'', ''picture_path'', ''description''],
      demo_op ''node-delete'' [''investigation_name'', ''version'', ''node_id''],
      demo_op ''edge-create'' [''investigation_name'', ''version'', ''edge_id'', ''node1_id'',
         ''node2_id'', ''description''],
      demo_op ''edge-update'' [''investigation_name'', ''version'', ''edge_id'', ''description''],
      demo_op ''edge-delete'' [''investigation_name'', ''version'', ''edge_id''],
      demo_op ''investigation-create'' [''investigation_name''],
      demo_op ''investigation-delete'' [''investigation_name'']]"

fun show_nat :: "nat \<Rightarrow> string" where
  "show_nat n =
     (if n < 10 then [char_of (48 + n)] else show_nat (n div 10) @ [char_of (48 + n mod 10)])"

declare show_nat.simps [simp del]

fun str_basic :: "pyval \<Rightarrow> string" where
  "str_basic (PStr s) = s"
| "str_basic PNone = ''None''"
| "str_basic (PBool b) = (if b then ''True'' else ''False'')"
| "str_basic (PInt i) = (if i < 0 then ''-'' @ show_nat (nat (- i)) else show_nat (nat i))"
| "str_basic v = []"

fun float_basic :: "pyval \<Rightarrow> pyexc + pyval" where
  "float_basic (PFloat f) = Inr (PFloat f)"
| "float_basic (PInt i) = Inr (PFloat (Finite (of_int i)))"
| "float_basic (PBool b) = Inr (PFloat (Finite (if b then 1 else 0)))"
| "float_basic (PStr s) = Inl ValueError"
| "float_basic v = Inl TypeError"

definition ne_basic :: "pyval \<Rightarrow> pyval \<Rightarrow> bool" where
  "ne_basic a b = (a = PFloat NaN \<or> b = PFloat NaN \<or> a \<noteq> b)"

definition demo_env :: "(event list \<Rightarrow> io_call \<Rightarrow> bool) \<Rightarrow> pyval list \<Rightarrow> env" where
  "demo_env failing docs =
     \<lparr>db_name = ''investigation_board'', investigation_name = ''tsarstvie'',
      operations = demo_operations, formatter = plain_format, schema_text = ''define'',
      raises = failing, contains_answer = (\<lambda>h n. False), documents = (\<lambda>h tx. docs),
      py_str = str_basic, py_float = float_basic, py_ne = ne_basic\<rparr>"

definition never :: "event list \<Rightarrow> io_call \<Rightarrow> bool" where
  "never h c = False"

definition commit_fails :: "event list \<Rightarrow> io_call \<Rightarrow> bool" where
  "commit_fails h c = (case c of TxCommit tx \<Rightarrow> True | _ \<Rightarrow> False)"

definition close_fails :: "event list \<Rightarrow> io_call \<Rightarrow> bool" where
  "close_fails h c = (case c of TxClose tx \<Rightarrow> True | _ \<Rightarrow> False)"

definition query_fails :: "event list \<Rightarrow> io_call \<Rightarrow> bool" where
  "query_fails h c = (case c of TxQuery tx q \<Rightarrow> True | _ \<Rightarrow> False)"

definition fresh :: "string option \<Rightarrow> string option \<Rightarrow> client_state" where
  "fresh av dbg = \<lparr>active_version = av, debug_db = dbg, trace = [], calls = []\<rparr>"

text \<open>The state after a write on an engine that never raises, and documents of a board.\<close>

definition wrote :: "string \<Rightarrow> call \<Rightarrow> client_state \<Rightarrow> client_state" where
  "wrote q c s = s\<lparr>calls := calls s @ [c],
      trace := trace s @ [(OpenTx ''investigation_board'' WRITE, True), (TxQuery (length (trace s)) q, True),
        (TxCommit (length (trace s)), True), (TxClose (length (trace s)), True)]\<rparr>"

definition edge_dict :: "pyval \<Rightarrow> pyval \<Rightarrow> pyval \<Rightarrow> pyval \<Rightarrow> pyval" where
  "edge_dict i a b d =
     PDict [(''edge_id'', i), (''node1'', a), (''node2'', b), (''description'', d)]"

definition board_doc :: "pyval list \<Rightarrow> pyval list \<Rightarrow> pyval" where
  "board_doc ns es = PDict [(''version'', PStr ''v1''), (''nodes'', PList ns), (''edges'', PList es)]"

text \<open>A persisted node, and desired nodes and edges as the HTTP layer hands them over.\<close>

definition alice_doc :: "pyval \<Rightarrow> pyval" where
  "alice_doc node_type = PDict [(''node_id'', PInt 1), (''name'', PStr ''Alice''),
     (''pos_x'', PFloat (Finite 10)), (''pos_y'', PFloat (Finite 20)),
     (''node_type'', node_type),
     (''picture_path'', PStr ''/images/alice.png''), (''description'', PNone)]"

definition edge_dto :: "pyval \<Rightarrow> pyval \<Rightarrow> pyval \<Rightarrow> pyval \<Rightarrow> pyval" where
  "edge_dto i a b d =
     PObj ''EdgeDTO'' [(''edge_id'', i), (''node1'', a), (''node2'', b), (''description'', d)]"

definition alice_dto :: "pyval \<Rightarrow> pyval" where
  "alice_dto node_type = PObj ''NodeDTO'' [(''node_id'', PInt 1), (''name'', PStr ''Alice''),
     (''pos_x'', PFloat (Finite 10)), (''pos_y'', PFloat (Finite 20)),
     (''node_type'', node_type),
     (''picture_path'', PStr ''/images/alice.png''), (''description'', PNone)]"

definition bob_dto :: pyval where
  "bob_dto = PObj ''NodeDTO'' [(''node_id'', PInt 2), (''name'', PStr ''Bob''),
     (''pos_x'', PFloat (Finite 30)), (''pos_y'', PFloat (Finite 40)),
     (''node_type'', PStr ''person''),
     (''picture_path'', PNone), (''description'', PNone)]"

text \<open>
  A board with two nodes and three edges, and a desired state that drops the node 3 and
  the edge 3, adds the node 2 and the edge 2, moves the node 1, gives the edge 1 another
  endpoint and the edge 4 another description; then the two states by id and the calls of
  their synchronisation. Last, a node whose position is NaN.
\<close>

definition carol_doc :: pyval where
  "carol_doc = PDict [(''node_id'', PInt 3), (''name'', PStr ''Carol''),
     (''pos_x'', PFloat (Finite 50)), (''pos_y'', PFloat (Finite 60)),
     (''node_type'', PStr ''person''),
     (''picture_path'', PNone), (''description'', PNone)]"

definition alice_moved :: pyval where
  "alice_moved = PObj ''NodeDTO'' [(''node_id'', PInt 1), (''name'', PStr ''Alice''),
     (''pos_x'', PFloat (Finite 15)), (''pos_y'', PFloat (Finite 20)),
     (''node_type'', PStr ''person''),
     (''picture_path'', PStr ''/images/alice.png''), (''description'', PNone)]"

definition old_board :: pyval where
  "old_board = board_doc [alice_doc (PStr ''person''), carol_doc]
     [edge_dict (PInt 1) (PInt 1) (PInt 3) (PStr ''knows''),
      edge_dict (PInt 3) (PInt 3) (PInt 1) PNone,
      edge_dict (PInt 4) (PInt 1) (PInt 1) (PStr ''self'')]"

definition new_nodes :: "pyval list" where
  "new_nodes = [alice_moved, bob_dto]"

definition new_edges :: "pyval list" where
  "new_edges = [edge_dto (PInt 1) (PInt 1) (PInt 2) (PStr ''knows''),
      edge_dto (PInt 4) (PInt 1) (PInt 1) (PStr ''loop''),
      edge_dto (PInt 2) (PInt 2) (PInt 1) PNone]"

definition old_new_indexes :: "pydict \<times> pydict \<times> pydict \<times> pydict" where
  "old_new_indexes =
     ([(''1'', alice_doc (PStr ''person'')), (''3'', carol_doc)],
      [(''1'', alice_moved), (''2'', bob_dto)],
      [(''1'', edge_dict (PInt 1) (PInt 1) (PInt 3) (PStr ''knows'')),
       (''3'', edge_dict (PInt 3) (PInt 3) (PInt 1) PNone),
       (''4'', edge_dict (PInt 4) (PInt 1) (PInt 1) (PStr ''self''))],
      [(''1'', edge_dto (PInt 1) (PInt 1) (PInt 2) (PStr ''knows'')),
       (''4'', edge_dto (PInt 4) (PInt 1) (PInt 1) (PStr ''loop'')),
       (''2'', edge_dto (PInt 2) (PInt 2) (PInt 1) PNone)])"

definition old_new_calls :: "call list" where
  "old_new_calls =
     [NodeDelete (PStr ''3'') (Some ''v1''),
      NodeCreate (PStr ''2'') (PStr ''Bob'') (PFloat (Finite 30)) (PFloat (Finite 40)) PNone PNone
        (Some ''v1''),
      NodeUpdate (PStr ''1'') (PStr ''Alice'') (PFloat (Finite 15)) (PFloat (Finite 20))
        (PStr ''/images/alice.png'') PNone (Some ''v1''),
      EdgeDelete (PStr ''3'') (Some ''v1''),
      EdgeCreate (PStr ''2'') (PStr ''2'') (PStr ''1'') PNone (Some ''v1''),
      EdgeDelete (PStr ''1'') (Some ''v1''),
      EdgeCreate (PStr ''1'') (PStr ''1'') (PStr ''2'') (PStr ''knows'') (Some ''v1''),
      EdgeUpdate (PStr ''4'') (PStr ''loop'') (Some ''v1'')]"

definition nan_doc :: pyval where
  "nan_doc = PDict [(''node_id'', PInt 1), (''name'', PStr ''Alice''),
     (''pos_x'', PFloat NaN), (''pos_y'', PFloat (Finite 20)),
     (''node_type'', PStr ''person''),
     (''picture_path'', PNone), (''description'', PNone)]"

section \<open>Verified properties\<close>

subsection \<open>What the helpers leave unchanged\<close>

lemma io_frame: "io env c s = (ok, s') \<Longrightarrow> active_version s' = active_version s \<and> debug_db s' = debug_db s \<and> calls s' = calls s"
  by (auto simp: io_def Let_def)

lemma io_action_frame: "io_action env c s = (r, s') \<Longrightarrow> active_version s' = active_version s \<and> debug_db s' = debug_db s \<and> calls s' = calls s"
  by (auto simp: io_action_def io_def Let_def split: bool.splits)

lemma transaction_frame:
  assumes "\<And>tx s r s'. body tx s = (r, s') \<Longrightarrow> active_version s' = active_version s \<and> debug_db s' = debug_db s \<and> calls s' = calls s"
      and "transaction env ty body s = (r, s')"
  shows "active_version s' = active_version s \<and> debug_db s' = debug_db s \<and> calls s' = calls s"
  using assms(2)
  apply (simp add: transaction_def Let_def split: prod.splits bool.splits)
   apply (auto dest!: io_frame assms(1))
  done

lemma query_commit_frame:
  "bind (io_action env (TxQuery tx q)) (\<lambda>_. io_action env (TxCommit tx)) s = (r, s')
   \<Longrightarrow> active_version s' = active_version s \<and> debug_db s' = debug_db s \<and> calls s' = calls s"
  by (auto simp: bind_def split: prod.splits sum.splits dest!: io_action_frame)

lemma execute_write_frame:
  "execute_write env op q s = (r, s') \<Longrightarrow> active_version s' = active_version s \<and> debug_db s' = debug_db s \<and> calls s' = calls s"
  unfolding execute_write_def
  by (auto split: prod.splits sum.splits dest!: transaction_frame[rotated] query_commit_frame)

lemma execute_write_error:
  "execute_write env op q s = (Inl e, s') \<Longrightarrow> e = QueryExecutionError"
  unfolding execute_write_def by (auto split: prod.splits sum.splits)

lemma execute_read_frame:
  "execute_read env op q s = (r, s') \<Longrightarrow>
     active_version s' = active_version s \<and> debug_db s' = debug_db s \<and> calls s' = calls s"
  by (auto simp: execute_read_def transaction_def io_def io_action_def bind_def Let_def
      split: prod.splits sum.splits bool.splits if_splits)

lemma build_query_pure: "build_query env op ps s = (r, s') \<Longrightarrow> s' = s \<and> (r = Inl e \<longrightarrow> (\<exists>d. e = TemplateProcessingError d))"
  by (auto simp: build_query_def raise_def ret_def split: sum.splits)

subsection \<open>Running the example environment\<close>

lemma demo_fields [simp]:
  "operations (demo_env f d) = demo_operations" "formatter (demo_env f d) = plain_format"
  "raises (demo_env f d) = f" "documents (demo_env f d) = (\<lambda>h tx. d)"
  "db_name (demo_env f d) = ''investigation_board''" "investigation_name (demo_env f d) = ''tsarstvie''"
  "py_str (demo_env f d) = str_basic" "py_float (demo_env f d) = float_basic" "py_ne (demo_env f d) = ne_basic"
  "schema_text (demo_env f d) = ''define''"
  by (simp_all add: demo_env_def)

lemma dict_keys_dict_set: "set (dict_keys (dict_set k v d)) = insert k (set (dict_keys d))"
  by (induction d) (auto simp: dict_keys_def)

lemma dict_keys_dict_update: "set (dict_keys (dict_update d ps)) = set (dict_keys d) \<union> set (dict_keys ps)"
  by (induction ps arbitrary: d) (auto simp: dict_keys_dict_set, auto simp: dict_keys_def)

lemma build_query_plain:
  assumes "operations env op = Some spec" and "formatter env = plain_format"
      and "set (dict_keys ps) = set (op_params spec)"
  shows "build_query env op ps s = (Inr (op_template spec), s)"
proof -
  have m: "merge_params op PNone ps = Inr (dict_update [] ps)"
    by (cases ps) (simp_all add: merge_params_def)
  have k: "set (dict_keys (dict_update [] ps)) = set (op_params spec)"
    using assms(3) by (simp add: dict_keys_dict_update) (simp add: dict_keys_def)
  show ?thesis
    using assms(1,2) by (simp add: build_query_def get_operation_def m k Let_def render_def
        plain_format_def ret_def)
qed

lemma demo_lookup:
  "demo_operations ''graph-by-version-get'' = Some (snd (demo_op ''graph-by-version-get'' [''investigation_name'', ''version'']))"
  "demo_operations ''node-create'' = Some (snd (demo_op ''node-create'' [''investigation_name'', ''version'', ''node_id'', ''name'',
         ''pos_x'', ''pos_y'', ''picture_path'', ''description'']))"
  "demo_operations ''node-update'' = Some (snd (demo_op ''node-update'' [''investigation_name'', ''version'', ''node_id'', ''name'',
         ''pos_x'', ''pos_y'', ''picture_path'', ''description'']))"
  "demo_operations ''node-delete'' = Some (snd (demo_op ''node-delete'' [''investigation_name'', ''version'', ''node_id'']))"
  "demo_operations ''edge-create'' = Some (snd (demo_op ''edge-create'' [''investigation_name'', ''version'', ''edge_id'', ''node1_id'',
         ''node2_id'', ''description'']))"
  "demo_operations ''edge-update'' = Some (snd (demo_op ''edge-update'' [''investigation_name'', ''version'', ''edge_id'', ''description'']))"
  "demo_operations ''edge-delete'' = Some (snd (demo_op ''edge-delete'' [''investigation_name'', ''version'', ''edge_id'']))"
  by (simp_all add: demo_operations_def demo_op_def)

lemma build_query_demo:
  assumes "demo_operations op = Some (snd (demo_op op params))" and "map fst ps = params"
  shows "build_query (demo_env f d) op ps s = (Inr op, s)"
  using build_query_plain[of "demo_env f d" op "snd (demo_op op params)" ps s] assms
  by (simp add: demo_op_def dict_keys_def)

lemma build_query_demo_sav:
  "build_query (demo_env f d) ''set-active-version''
     [(''investigation_name'', PStr ''tsarstvie''), (''version'', PStr v)] s = (Inr ''set-active-version'', s)"
  by (simp add: build_query_def get_operation_def demo_operations_def demo_op_def merge_params_def
      dict_keys_def plain_format_def render_def ret_def)

lemma build_query_demo_gv:
  "build_query (demo_env f d) ''get-versions'' [(''investigation_name'', PStr ''tsarstvie'')] s
     = (Inr ''get-versions'', s)"
  by (simp add: build_query_def get_operation_def demo_operations_def demo_op_def merge_params_def
      dict_keys_def plain_format_def render_def ret_def)

lemma execute_write_never:
  "raises env = never \<Longrightarrow> execute_write env op q s =
     (Inr (), s\<lparr>trace := trace s @ [(OpenTx (db_name env) WRITE, True), (TxQuery (length (trace s)) q, True),
        (TxCommit (length (trace s)), True), (TxClose (length (trace s)), True)]\<rparr>)"
  by (simp add: execute_write_def transaction_def io_def io_action_def bind_def never_def Let_def)

lemma execute_write_commit_fails:
  "raises env = commit_fails \<Longrightarrow> execute_write env op q s =
     (Inl QueryExecutionError, s\<lparr>trace := trace s @ [(OpenTx (db_name env) WRITE, True),
        (TxQuery (length (trace s)) q, True),
        (TxCommit (length (trace s)), False), (TxClose (length (trace s)), True)]\<rparr>)"
  by (simp add: execute_write_def transaction_def io_def io_action_def bind_def commit_fails_def Let_def)

lemma execute_read_never:
  "raises env = never \<Longrightarrow> execute_read env op q s =
     (Inr (documents env (trace s @ [(OpenTx (db_name env) READ, True), (TxQuery (length (trace s)) q, True)]) (length (trace s))),
      s\<lparr>trace := trace s @ [(OpenTx (db_name env) READ, True), (TxQuery (length (trace s)) q, True),
        (TxDocs (length (trace s)), True), (TxClose (length (trace s)), True)]\<rparr>)"
  by (simp add: execute_read_def transaction_def io_def io_action_def bind_def never_def Let_def)

lemma demo_writes:
  "edge_create (demo_env never d) i a b desc (Some v) s
     = (Inr (), wrote ''edge-create'' (EdgeCreate i a b desc (Some v)) s)"
  "edge_delete (demo_env never d) i (Some v) s
     = (Inr (), wrote ''edge-delete'' (EdgeDelete i (Some v)) s)"
  "edge_update (demo_env never d) i desc (Some v) s
     = (Inr (), wrote ''edge-update'' (EdgeUpdate i desc (Some v)) s)"
  "node_create (demo_env never d) i n x y p desc (Some v) s
     = (Inr (), wrote ''node-create'' (NodeCreate i n x y p desc (Some v)) s)"
  "node_update (demo_env never d) i n x y p desc (Some v) s
     = (Inr (), wrote ''node-update'' (NodeUpdate i n x y p desc (Some v)) s)"
  "node_delete (demo_env never d) i (Some v) s
     = (Inr (), wrote ''node-delete'' (NodeDelete i (Some v)) s)"
  by (simp_all add: edge_create_def edge_delete_def edge_update_def node_create_def node_update_def
      node_delete_def node_params_def bind_def record_call_def resolve_version_def wrote_def
      build_query_demo[OF demo_lookup(2)] build_query_demo[OF demo_lookup(3)]
      build_query_demo[OF demo_lookup(4)] build_query_demo[OF demo_lookup(5)]
      build_query_demo[OF demo_lookup(6)] build_query_demo[OF demo_lookup(7)]
      execute_write_never)

lemma graph_by_version_get_demo:
  "graph_by_version_get (demo_env never [doc]) (Some v) s
     = (Inr doc, s\<lparr>trace := trace s @ [(OpenTx ''investigation_board'' READ, True),
          (TxQuery (length (trace s)) ''graph-by-version-get'', True),
          (TxDocs (length (trace s)), True), (TxClose (length (trace s)), True)]\<rparr>)"
  by (simp add: graph_by_version_get_def bind_def resolve_version_def
      build_query_demo[OF demo_lookup(1)] execute_read_never ret_def)

lemma show_nat_digits [simp]:
  "show_nat (Suc 0) = ''1''" "show_nat 1 = ''1''" "show_nat 2 = ''2''" "show_nat 3 = ''3''"
  "show_nat 4 = ''4''"
  by code_simp+

subsection \<open>Version resolution\<close>

text \<open>
  Claim C5. \<^verbatim>\<open>_resolve_version(explicit)\<close> returns \<open>explicit\<close> whenever it is not \<^verbatim>\<open>None\<close>,
  whatever is cached; with \<^verbatim>\<open>None\<close> it returns the cached active version when there is one
  and fails with \<open>ActiveVersionError\<close> when there is none; and after a successful
  \<^verbatim>\<open>set_active_version(v)\<close>, for instance with "v2", \<^verbatim>\<open>_resolve_version(None)\<close> returns \<open>v\<close>.
  No case changes the state.
\<close>

theorem resolve_version_cases:
  "resolve_version (Some v) s = (Inr v, s)
   \<and> (active_version s = Some a \<longrightarrow> resolve_version None s = (Inr a, s))
   \<and> (active_version s = None \<longrightarrow> resolve_version None s = (Inl ActiveVersionError, s))
   \<and> (set_active_version env v s = (Inr (), s') \<longrightarrow> resolve_version None s' = (Inr v, s'))"
  by (auto simp: resolve_version_def set_active_version_def bind_def split: prod.splits sum.splits)

theorem resolve_version_cases_witness:
  "resolve_version (Some ''v1'') (fresh (Some ''v0'') None) = (Inr ''v1'', fresh (Some ''v0'') None)
   \<and> resolve_version None (fresh (Some ''v0'') None) = (Inr ''v0'', fresh (Some ''v0'') None)
   \<and> resolve_version None (fresh None None) = (Inl ActiveVersionError, fresh None None)
   \<and> set_active_version (demo_env never []) ''v2'' (fresh None None)
       = (Inr (), (fresh (Some ''v2'') None)\<lparr>trace := [(OpenTx ''investigation_board'' WRITE, True),
            (TxQuery 0 ''set-active-version'', True), (TxCommit 0, True), (TxClose 0, True)]\<rparr>)
   \<and> resolve_version None ((fresh (Some ''v2'') None)\<lparr>trace := [(OpenTx ''investigation_board'' WRITE, True),
            (TxQuery 0 ''set-active-version'', True), (TxCommit 0, True), (TxClose 0, True)]\<rparr>)
       = (Inr ''v2'', (fresh (Some ''v2'') None)\<lparr>trace := [(OpenTx ''investigation_board'' WRITE, True),
            (TxQuery 0 ''set-active-version'', True), (TxCommit 0, True), (TxClose 0, True)]\<rparr>)"
proof -
  have run: "set_active_version (demo_env never []) ''v2'' (fresh None None)
       = (Inr (), (fresh (Some ''v2'') None)\<lparr>trace := [(OpenTx ''investigation_board'' WRITE, True),
            (TxQuery 0 ''set-active-version'', True), (TxCommit 0, True), (TxClose 0, True)]\<rparr>)"
    by (simp add: set_active_version_def bind_def build_query_demo_sav execute_write_never fresh_def)
  show ?thesis
    using resolve_version_cases[of "''v1''" "fresh (Some ''v0'') None" "''v0''"]
      resolve_version_cases[of "''v1''" "fresh None None"]
      resolve_version_cases[of "''v2''" "fresh None None" _ "demo_env never []", OF ] run
    by (simp add: fresh_def)
qed

subsection \<open>Debug gating\<close>

text \<open>
  Claim C7. With \<^verbatim>\<open>DEBUG_DB\<close> unset, each of \<^verbatim>\<open>create_database\<close>, \<^verbatim>\<open>drop_database\<close>,
  \<^verbatim>\<open>investigation_create\<close> and \<^verbatim>\<open>investigation_delete\<close> fails with
  \<open>OperationIsNotAllowed\<close> and leaves the state as it was: the trace gains no event, so no
  database check, transaction, query or schema read took place.
\<close>

theorem debug_gate:
  assumes "debug_db s = None"
  shows "create_database env name s = (Inl OperationIsNotAllowed, s)
       \<and> drop_database env name s = (Inl OperationIsNotAllowed, s)
       \<and> investigation_create env s = (Inl OperationIsNotAllowed, s)
       \<and> investigation_delete env s = (Inl OperationIsNotAllowed, s)"
  using assms
  by (simp add: create_database_def drop_database_def investigation_create_def
      investigation_delete_def bind_def ensure_debug_allowed_def)

theorem debug_gate_witness:
  "debug_db (fresh None None) = None
   \<and> create_database (demo_env never []) (Some ''test_db'') (fresh None None)
        = (Inl OperationIsNotAllowed, fresh None None)
   \<and> drop_database (demo_env never []) None (fresh None None)
        = (Inl OperationIsNotAllowed, fresh None None)
   \<and> investigation_create (demo_env never []) (fresh None None)
        = (Inl OperationIsNotAllowed, fresh None None)
   \<and> investigation_delete (demo_env never []) (fresh None None)
        = (Inl OperationIsNotAllowed, fresh None None)"
proof -
  have h: "debug_db (fresh None None) = None" by (simp add: fresh_def)
  show ?thesis
    using h debug_gate[OF h, of "demo_env never []" "Some ''test_db''"]
      debug_gate[OF h, of "demo_env never []" None]
    by simp
qed

subsection \<open>Reads that expect one document\<close>

lemma graph_by_version_get_shape:
  assumes "resolve_version version s = (Inr rv, s)"
      and "build_query env ''graph-by-version-get''
             [(''investigation_name'', PStr (investigation_name env)), (''version'', PStr rv)] s = (Inr q, s)"
      and "execute_read env ''graph-by-version-get'' q s = (Inr docs, s1)"
  shows "graph_by_version_get env version s =
           (if length docs = 1 then Inr (docs ! 0) else Inl QueryExecutionError, s1)"
  using assms by (cases docs) (auto simp: graph_by_version_get_def bind_def raise_def ret_def)

lemma get_versions_shape:
  assumes "build_query env ''get-versions''
             [(''investigation_name'', PStr (investigation_name env))] s = (Inr q, s)"
      and "execute_read env ''get-versions'' q s = (Inr docs, s1)"
  shows "get_versions env s =
           (if docs = [] then Inl (Uncaught NameError)
            else if length docs = 1 then Inr (docs ! 0) else Inl QueryExecutionError, s1)"
  using assms by (cases docs) (auto simp: get_versions_def bind_def raise_def ret_def)

text \<open>
  Claim C3. A read that expects exactly one document fails with \<open>QueryExecutionError\<close> when
  it gets none or several. \<^verbatim>\<open>graph_by_version_get\<close> does (lemma
  \<open>graph_by_version_get_shape\<close>), and so does \<^verbatim>\<open>get_versions\<close> on several documents; on no
  document \<^verbatim>\<open>get_versions\<close> leaves with a \<^verbatim>\<open>NameError\<close> instead, as this run on an engine
  that answers the read with an empty result shows.
\<close>

theorem get_versions_no_documents:
  "get_versions (demo_env never []) (fresh (Some ''v1'') None)
     = (Inl (Uncaught NameError),
        (fresh (Some ''v1'') None)\<lparr>trace := [(OpenTx ''investigation_board'' READ, True),
           (TxQuery 0 ''get-versions'', True), (TxDocs 0, True), (TxClose 0, True)]\<rparr>)"
  by (simp add: get_versions_def bind_def build_query_demo_gv execute_read_never fresh_def raise_def)

subsection \<open>Parameter validation of the renderer\<close>

text \<open>
  Claim C4. For a known operation and the merged parameter dict, with \<open>required\<close> the
  declared names and \<open>provided\<close> the keys of the dict: when \<open>required - provided\<close> is not
  empty, \<^verbatim>\<open>get_operation\<close> raises \<open>OperationError\<close> whose message lists these missing names
  sorted and joined by ", " (also when there are extra names as well); otherwise, when
  \<open>provided - required\<close> is not empty, it raises \<open>OperationError\<close> listing the extra names in
  the same way; the template is rendered only when \<open>provided = required\<close>. The listed names
  are in ascending order, without repetition, and are exactly the set in question.
\<close>

theorem get_operation_strict_arity:
  assumes "ops operation = Some op"
      and "merge_params operation params kwargs = Inr merged"
  shows "(set (op_params op) - set (dict_keys merged) \<noteq> {} \<longrightarrow>
            get_operation fmt ops operation params kwargs =
              Inl (OperationError (''Operation '' @ dq @ operation @ dq
                 @ '' is missing required parameter(s): ''
                 @ join '', '' (sorted_list_of_set (set (op_params op) - set (dict_keys merged)))
                 @ ''.'')))
       \<and> (set (op_params op) - set (dict_keys merged) = {}
            \<and> set (dict_keys merged) - set (op_params op) \<noteq> {} \<longrightarrow>
            get_operation fmt ops operation params kwargs =
              Inl (OperationError (''Operation '' @ dq @ operation @ dq
                 @ '' received unknown parameter(s): ''
                 @ join '', '' (sorted_list_of_set (set (dict_keys merged) - set (op_params op)))
                 @ ''.'')))
       \<and> (set (dict_keys merged) = set (op_params op) \<longrightarrow>
            get_operation fmt ops operation params kwargs = render fmt operation op merged)
       \<and> ((\<exists>query. get_operation fmt ops operation params kwargs = Inr query) \<longrightarrow>
            set (dict_keys merged) = set (op_params op))
       \<and> sorted (sorted_list_of_set (set (op_params op) - set (dict_keys merged)))
       \<and> distinct (sorted_list_of_set (set (op_params op) - set (dict_keys merged)))
       \<and> set (sorted_list_of_set (set (op_params op) - set (dict_keys merged)))
            = set (op_params op) - set (dict_keys merged)
       \<and> sorted (sorted_list_of_set (set (dict_keys merged) - set (op_params op)))
       \<and> distinct (sorted_list_of_set (set (dict_keys merged) - set (op_params op)))
       \<and> set (sorted_list_of_set (set (dict_keys merged) - set (op_params op)))
            = set (dict_keys merged) - set (op_params op)"
proof -
  let ?req = "set (op_params op)" and ?prov = "set (dict_keys merged)"
  have g: "get_operation fmt ops operation params kwargs =
      (if ?req - ?prov \<noteq> {} then Inl (OperationError (missing_message operation (?req - ?prov)))
       else if ?prov - ?req \<noteq> {} then Inl (OperationError (extra_message operation (?prov - ?req)))
       else render fmt operation op merged)"
    using assms by (simp add: get_operation_def Let_def)
  have eq: "?prov = ?req \<longleftrightarrow> ?req - ?prov = {} \<and> ?prov - ?req = {}" by auto
  show ?thesis
    unfolding g eq by (auto simp: missing_message_def extra_message_def)
qed

theorem get_operation_strict_arity_witness:
  "get_operation plain_format demo_operations ''node-delete''
      (PDict [(''zz'', PNone), (''investigation_name'', PStr ''x'')]) [(''a'', PNone)]
     = Inl (OperationError (''Operation '' @ dq @ ''node-delete'' @ dq
          @ '' is missing required parameter(s): node_id, version.''))
   \<and> get_operation plain_format demo_operations ''get-versions''
      (PDict [(''zz'', PNone), (''investigation_name'', PStr ''x'')]) [(''a'', PNone)]
     = Inl (OperationError (''Operation '' @ dq @ ''get-versions'' @ dq
          @ '' received unknown parameter(s): a, zz.''))
   \<and> get_operation plain_format demo_operations ''get-versions''
      (PDict [(''investigation_name'', PStr ''x'')]) [(''investigation_name'', PStr ''y'')]
     = Inr ''get-versions''"
proof -
  have nd: "demo_operations ''node-delete'' = Some (snd (demo_op ''node-delete''
              [''investigation_name'', ''version'', ''node_id'']))"
    by (simp add: demo_operations_def demo_op_def)
  have gv: "demo_operations ''get-versions'' = Some (snd (demo_op ''get-versions''
              [''investigation_name'']))"
    by (simp add: demo_operations_def demo_op_def)
  have m1: "merge_params ''node-delete''
      (PDict [(''zz'', PNone), (''investigation_name'', PStr ''x'')]) [(''a'', PNone)]
      = Inr [(''zz'', PNone), (''investigation_name'', PStr ''x''), (''a'', PNone)]"
    by (simp add: merge_params_def)
  have m2: "merge_params ''get-versions''
      (PDict [(''zz'', PNone), (''investigation_name'', PStr ''x'')]) [(''a'', PNone)]
      = Inr [(''zz'', PNone), (''investigation_name'', PStr ''x''), (''a'', PNone)]"
    by (simp add: merge_params_def)
  have m3: "merge_params ''get-versions''
      (PDict [(''investigation_name'', PStr ''x'')]) [(''investigation_name'', PStr ''y'')]
      = Inr [(''investigation_name'', PStr ''y'')]"
    by (simp add: merge_params_def)
  have s1: "sorted_list_of_set (set [''investigation_name'', ''version'', ''node_id'']
              - set [''zz'', ''investigation_name'', ''a'']) = [''node_id'', ''version'']"
    by code_simp
  have s2: "sorted_list_of_set (set [''zz'', ''investigation_name'', ''a'']
              - set [''investigation_name'']) = [''a'', ''zz'']"
    by code_simp
  have d1: "set [''investigation_name'', ''version'', ''node_id'']
              - set [''zz'', ''investigation_name'', ''a''] \<noteq> {}"
    by auto
  have d2: "set [''zz'', ''investigation_name'', ''a''] - set [''investigation_name''] \<noteq> {}"
    by auto
  show ?thesis
    using get_operation_strict_arity[where ops = demo_operations and operation = "''node-delete''"
          and fmt = plain_format, OF nd m1]
      get_operation_strict_arity[where ops = demo_operations and operation = "''get-versions''"
          and fmt = plain_format, OF gv m2]
      get_operation_strict_arity[where ops = demo_operations and operation = "''get-versions''"
          and fmt = plain_format, OF gv m3]
      s1 s2 d1 d2
    by (simp add: demo_op_def dict_keys_def render_def plain_format_def)
qed




subsection \<open>Transaction discipline\<close>

lemma open_txs_snoc:
  "open_txs (tr @ [e]) = open_txs tr @ (if is_open e then [length tr] else [])"
proof -
  have a: "filter (\<lambda>i. is_open ((tr @ [e]) ! i)) [0..<length tr] = filter (\<lambda>i. is_open (tr ! i)) [0..<length tr]"
    by (rule filter_cong) (simp_all add: nth_append)
  have "open_txs (tr @ [e]) = filter (\<lambda>i. is_open ((tr @ [e]) ! i)) ([0..<length tr] @ [length tr])"
    by (simp add: open_txs_def)
  also have "\<dots> = filter (\<lambda>i. is_open (tr ! i)) [0..<length tr] @ (if is_open e then [length tr] else [])"
    by (simp only: filter_append a) simp
  finally show ?thesis by (simp only: open_txs_def)
qed

lemma open_txs_append:
  "open_txs (tr @ seg) = open_txs tr @ map (\<lambda>i. length tr + i) (open_txs seg)"
proof (induction seg rule: rev_induct)
  case Nil
  show ?case by (simp add: open_txs_def)
next
  case (snoc e seg)
  have "open_txs (tr @ seg @ [e]) = open_txs ((tr @ seg) @ [e])" by simp
  also have "\<dots> = open_txs (tr @ seg) @ (if is_open e then [length tr + length seg] else [])"
    by (simp only: open_txs_snoc length_append)
  finally show ?case
    by (simp only: snoc.IH open_txs_snoc[of seg e]) simp
qed

lemma open_txs_none:
  "(\<forall>e \<in> set tr. \<not> is_open e) \<Longrightarrow> open_txs tr = []"
  by (simp add: open_txs_def filter_empty_conv)

lemma open_txs_bound: "t \<in> set (open_txs tr) \<Longrightarrow> t < length tr"
  by (simp add: open_txs_def)

lemma closed_after_append:
  assumes "t < length tr"
  shows "closed_after (tr @ seg) t = (closed_after tr t \<or> TxClose t \<in> set (map fst seg))"
  using assms by (auto simp: closed_after_def)

lemma leaked_append_failed_open:
  "leaked (tr @ [(OpenTx db ty, False)]) = leaked tr"
proof -
  have o: "open_txs (tr @ [(OpenTx db ty, False)]) = open_txs tr"
    by (simp add: open_txs_append open_txs_none)
  have "filter (\<lambda>t. \<not> closed_after (tr @ [(OpenTx db ty, False)]) t) (open_txs tr)
      = filter (\<lambda>t. \<not> closed_after tr t) (open_txs tr)"
    by (rule filter_cong) (simp_all add: closed_after_append open_txs_bound)
  then show ?thesis by (simp only: leaked_def o)
qed

lemma leaked_append_closed:
  assumes "\<forall>e \<in> set mid. \<not> is_open e" and nc: "\<forall>t. TxClose t \<notin> fst ` set mid"
  shows "leaked (tr @ (OpenTx db ty, True) # mid @ [(TxClose (length tr), c)]) = leaked tr"
proof -
  let ?n = "length tr"
  let ?seg = "(OpenTx db ty, True) # mid @ [(TxClose ?n, c)]"
  have "open_txs ?seg = open_txs ([(OpenTx db ty, True)] @ (mid @ [(TxClose ?n, c)]))" by simp
  also have "\<dots> = [0]"
    unfolding open_txs_append using assms
    by (simp add: open_txs_none) (simp add: open_txs_def)
  finally have os: "open_txs ?seg = [0]" .
  have o: "open_txs (tr @ ?seg) = open_txs tr @ [?n]"
    by (simp only: open_txs_append os) simp
  have old: "filter (\<lambda>t. \<not> closed_after (tr @ ?seg) t) (open_txs tr)
      = filter (\<lambda>t. \<not> closed_after tr t) (open_txs tr)"
  proof (rule filter_cong[OF refl])
    fix t assume "t \<in> set (open_txs tr)"
    then have t: "t < ?n" by (rule open_txs_bound)
    have "TxClose t \<notin> set (map fst ?seg)" using t nc[rule_format, of t] by simp
    with t show "(\<not> closed_after (tr @ ?seg) t) = (\<not> closed_after tr t)"
      by (simp only: closed_after_append[OF t]) simp
  qed
  have new: "closed_after (tr @ ?seg) ?n"
    by (simp add: closed_after_def)
  have last: "filter (\<lambda>t. \<not> closed_after (tr @ ?seg) t) [?n] = []"
    using new by (simp only: filter.simps) simp
  have "leaked (tr @ ?seg)
      = filter (\<lambda>t. \<not> closed_after (tr @ ?seg) t) (open_txs tr)
        @ filter (\<lambda>t. \<not> closed_after (tr @ ?seg) t) [?n]"
    by (simp only: leaked_def o filter_append)
  also have "\<dots> = leaked tr"
    by (simp only: old last leaked_def append_Nil2)
  finally show ?thesis .
qed

lemma leaked_tx2:
  assumes "\<not> is_open (c1, b1)" and "\<forall>t. c1 \<noteq> TxClose t"
  shows "leaked (tr @ [(OpenTx db ty, True), (c1, b1), (TxClose (length tr), c)]) = leaked tr"
  using leaked_append_closed[where mid = "[(c1, b1)]" and tr = tr and db = db and ty = ty and c = c]
    assms by (simp add: eq_commute[of "TxClose _"])

lemma leaked_tx3:
  assumes "\<not> is_open (c1, b1)" and "\<forall>t. c1 \<noteq> TxClose t"
      and "\<not> is_open (c2, b2)" and "\<forall>t. c2 \<noteq> TxClose t"
  shows "leaked (tr @ [(OpenTx db ty, True), (c1, b1), (c2, b2), (TxClose (length tr), c)]) = leaked tr"
  using leaked_append_closed[where mid = "[(c1, b1), (c2, b2)]" and tr = tr and db = db and ty = ty and c = c]
    assms by (simp add: eq_commute[of "TxClose _"])

lemma query_commit_closed:
  assumes "transaction env ty
             (\<lambda>tx. bind (io_action env (TxQuery tx q)) (\<lambda>_. io_action env (TxCommit tx))) s = (r, s')"
  shows "leaked (trace s') = leaked (trace s)
       \<and> take (length (trace s)) (trace s') = trace s
       \<and> (new_events s s' = [(OpenTx (db_name env) ty, False)]
            \<or> fst (last (new_events s s')) = TxClose (length (trace s)))
       \<and> (\<exists>e. r = (if (TxCommit (length (trace s)), True) \<in> set (new_events s s')
                then Inr () else Inl e))"
  using assms
  by (auto simp: transaction_def io_def io_action_def bind_def Let_def new_events_def
      leaked_append_failed_open leaked_tx2 leaked_tx3
      split: prod.splits sum.splits bool.splits if_splits)

lemma execute_write_closed:
  assumes "execute_write env op q s = (r, s')"
  shows "leaked (trace s') = leaked (trace s)
       \<and> take (length (trace s)) (trace s') = trace s
       \<and> (new_events s s' = [(OpenTx (db_name env) WRITE, False)]
            \<or> fst (last (new_events s s')) = TxClose (length (trace s)))
       \<and> r = (if (TxCommit (length (trace s)), True) \<in> set (new_events s s')
              then Inr () else Inl QueryExecutionError)"
proof -
  obtain r0 where t: "transaction env WRITE
      (\<lambda>tx. bind (io_action env (TxQuery tx q)) (\<lambda>_. io_action env (TxCommit tx))) s = (r0, s')"
    and r: "r = (case r0 of Inl e \<Rightarrow> Inl QueryExecutionError | Inr u \<Rightarrow> Inr ())"
    using assms by (auto simp: execute_write_def split: prod.splits sum.splits)
  from query_commit_closed[OF t] r show ?thesis by (auto split: if_splits)
qed

lemma apply_schema_closed:
  assumes "apply_schema env text s = (r, s')"
  shows "leaked (trace s') = leaked (trace s)
       \<and> take (length (trace s)) (trace s') = trace s
       \<and> (new_events s s' = [(OpenTx (db_name env) SCHEMA, False)]
            \<or> fst (last (new_events s s')) = TxClose (length (trace s)))
       \<and> r = (if (TxCommit (length (trace s)), True) \<in> set (new_events s s')
              then Inr () else Inl QueryExecutionError)"
proof -
  obtain r0 where t: "transaction env SCHEMA
      (\<lambda>tx. bind (io_action env (TxQuery tx text)) (\<lambda>_. io_action env (TxCommit tx))) s = (r0, s')"
    and r: "r = (case r0 of Inl e \<Rightarrow> Inl QueryExecutionError | Inr u \<Rightarrow> Inr ())"
    using assms by (auto simp: apply_schema_def split: prod.splits sum.splits)
  from query_commit_closed[OF t] r show ?thesis by (auto split: if_splits)
qed

lemma execute_read_closed:
  assumes "execute_read env op q s = (r, s')"
  shows "leaked (trace s') = leaked (trace s)
       \<and> take (length (trace s)) (trace s') = trace s
       \<and> (new_events s s' = [(OpenTx (db_name env) READ, False)]
            \<or> fst (last (new_events s s')) = TxClose (length (trace s)))
       \<and> (if (TxDocs (length (trace s)), True) \<in> set (new_events s s')
           then \<exists>docs. r = Inr docs else r = Inl QueryExecutionError)"
  using assms
  by (auto simp: execute_read_def transaction_def io_def io_action_def bind_def Let_def new_events_def
      leaked_append_failed_open leaked_tx2 leaked_tx3
      split: prod.splits sum.splits bool.splits if_splits)

text \<open>
  Claim C9. Every run of \<^verbatim>\<open>_execute_write\<close>, of \<^verbatim>\<open>_execute_read\<close> and of the schema step of
  \<^verbatim>\<open>investigation_create\<close> leaves the set of open transactions as it found it: the trace
  only grows, the new part is either the one failed opening or ends with the \<^verbatim>\<open>close\<close> of the
  transaction just opened, on success and on failure alike. The outcome of \<^verbatim>\<open>close\<close> has no
  part in the result: a write returns exactly when its commit returned, a read exactly when
  its documents were materialised, and every other run raises \<open>QueryExecutionError\<close>.
\<close>

theorem transactions_closed:
  "(execute_write env op q s = (w, s1) \<longrightarrow>
      leaked (trace s1) = leaked (trace s)
      \<and> take (length (trace s)) (trace s1) = trace s
      \<and> (new_events s s1 = [(OpenTx (db_name env) WRITE, False)]
          \<or> fst (last (new_events s s1)) = TxClose (length (trace s)))
      \<and> w = (if (TxCommit (length (trace s)), True) \<in> set (new_events s s1)
             then Inr () else Inl QueryExecutionError))
   \<and> (execute_read env op q s = (r, s2) \<longrightarrow>
      leaked (trace s2) = leaked (trace s)
      \<and> take (length (trace s)) (trace s2) = trace s
      \<and> (new_events s s2 = [(OpenTx (db_name env) READ, False)]
          \<or> fst (last (new_events s s2)) = TxClose (length (trace s)))
      \<and> (if (TxDocs (length (trace s)), True) \<in> set (new_events s s2)
          then \<exists>docs. r = Inr docs else r = Inl QueryExecutionError))
   \<and> (apply_schema env schema s = (a, s3) \<longrightarrow>
      leaked (trace s3) = leaked (trace s)
      \<and> take (length (trace s)) (trace s3) = trace s
      \<and> (new_events s s3 = [(OpenTx (db_name env) SCHEMA, False)]
          \<or> fst (last (new_events s s3)) = TxClose (length (trace s)))
      \<and> a = (if (TxCommit (length (trace s)), True) \<in> set (new_events s s3)
             then Inr () else Inl QueryExecutionError))"
  using execute_write_closed[of env op q s w s1] execute_read_closed[of env op q s r s2]
    apply_schema_closed[of env schema s a s3]
  by blast

theorem transactions_closed_witness:
  "execute_write (demo_env close_fails []) ''node-delete'' ''delete'' (fresh None None)
     = (Inr (), (fresh None None)\<lparr>trace := [(OpenTx ''investigation_board'' WRITE, True),
          (TxQuery 0 ''delete'', True), (TxCommit 0, True), (TxClose 0, False)]\<rparr>)
   \<and> execute_read (demo_env query_fails []) ''get-versions'' ''match'' (fresh None None)
     = (Inl QueryExecutionError, (fresh None None)\<lparr>trace := [(OpenTx ''investigation_board'' READ, True),
          (TxQuery 0 ''match'', False), (TxClose 0, True)]\<rparr>)
   \<and> apply_schema (demo_env commit_fails []) ''define'' (fresh None None)
     = (Inl QueryExecutionError, (fresh None None)\<lparr>trace := [(OpenTx ''investigation_board'' SCHEMA, True),
          (TxQuery 0 ''define'', True), (TxCommit 0, False), (TxClose 0, True)]\<rparr>)
   \<and> leaked [(OpenTx ''investigation_board'' WRITE, True),
          (TxQuery 0 ''delete'', True), (TxCommit 0, True), (TxClose 0, False)] = []
   \<and> leaked [(OpenTx ''investigation_board'' READ, True),
          (TxQuery 0 ''match'', False), (TxClose 0, True)] = []
   \<and> leaked [(OpenTx ''investigation_board'' SCHEMA, True),
          (TxQuery 0 ''define'', True), (TxCommit 0, False), (TxClose 0, True)] = []"
proof -
  have w: "execute_write (demo_env close_fails []) ''node-delete'' ''delete'' (fresh None None)
     = (Inr (), (fresh None None)\<lparr>trace := [(OpenTx ''investigation_board'' WRITE, True),
          (TxQuery 0 ''delete'', True), (TxCommit 0, True), (TxClose 0, False)]\<rparr>)"
    by (simp add: execute_write_def transaction_def io_def io_action_def bind_def close_fails_def
        Let_def fresh_def)
  have r: "execute_read (demo_env query_fails []) ''get-versions'' ''match'' (fresh None None)
     = (Inl QueryExecutionError, (fresh None None)\<lparr>trace := [(OpenTx ''investigation_board'' READ, True),
          (TxQuery 0 ''match'', False), (TxClose 0, True)]\<rparr>)"
    by (simp add: execute_read_def transaction_def io_def io_action_def bind_def query_fails_def
        Let_def fresh_def)
  have a: "apply_schema (demo_env commit_fails []) ''define'' (fresh None None)
     = (Inl QueryExecutionError, (fresh None None)\<lparr>trace := [(OpenTx ''investigation_board'' SCHEMA, True),
          (TxQuery 0 ''define'', True), (TxCommit 0, False), (TxClose 0, True)]\<rparr>)"
    by (simp add: apply_schema_def transaction_def io_def io_action_def bind_def commit_fails_def
        Let_def fresh_def)
  have e: "leaked (trace (fresh None None)) = []"
    by (simp add: fresh_def leaked_def open_txs_def)
  let ?s = "fresh None None"
  let ?w = "?s\<lparr>trace := [(OpenTx ''investigation_board'' WRITE, True),
          (TxQuery 0 ''delete'', True), (TxCommit 0, True), (TxClose 0, False)]\<rparr>"
  let ?r = "?s\<lparr>trace := [(OpenTx ''investigation_board'' READ, True),
          (TxQuery 0 ''match'', False), (TxClose 0, True)]\<rparr>"
  let ?a = "?s\<lparr>trace := [(OpenTx ''investigation_board'' SCHEMA, True),
          (TxQuery 0 ''define'', True), (TxCommit 0, False), (TxClose 0, True)]\<rparr>"
  from transactions_closed[of "demo_env close_fails []" "''node-delete''" "''delete''"
        ?s "Inr ()" ?w "Inl QueryExecutionError" ?s "''define''" "Inl QueryExecutionError" ?s] w e
  have l1: "leaked [(OpenTx ''investigation_board'' WRITE, True),
          (TxQuery 0 ''delete'', True), (TxCommit 0, True), (TxClose 0, False)] = []"
    by simp
  from transactions_closed[of "demo_env query_fails []" "''get-versions''" "''match''"
        ?s "Inr ()" ?s "Inl QueryExecutionError" ?r "''define''" "Inl QueryExecutionError" ?s] r e
  have l2: "leaked [(OpenTx ''investigation_board'' READ, True),
          (TxQuery 0 ''match'', False), (TxClose 0, True)] = []"
    by simp
  from transactions_closed[of "demo_env commit_fails []" "''get-versions''" "''match''"
        ?s "Inr ()" ?s "Inl QueryExecutionError" ?s "''define''" "Inl QueryExecutionError" ?a] a e
  have l3: "leaked [(OpenTx ''investigation_board'' SCHEMA, True),
          (TxQuery 0 ''define'', True), (TxCommit 0, False), (TxClose 0, True)] = []"
    by simp
  from w r a l1 l2 l3 show ?thesis by simp
qed

subsection \<open>The cached active version\<close>

text \<open>
  Claim C6. \<^verbatim>\<open>set_active_version(version)\<close> stores \<open>version\<close> in the cache exactly when
  the write succeeds: the call returns if and only if the commit of its write transaction
  returned, and then the cache holds \<open>version\<close>; when it raises, the exception is a
  \<open>QueryExecutionError\<close> or a \<open>TemplateProcessingError\<close> and the cache is what it was.
\<close>

theorem set_active_version_cache:
  assumes "set_active_version env version s = (r, s')"
  shows "(r = Inr ()) = ((TxCommit (length (trace s)), True) \<in> set (new_events s s'))
       \<and> (r = Inr () \<longrightarrow> active_version s' = Some version)
       \<and> (r \<noteq> Inr () \<longrightarrow> active_version s' = active_version s
             \<and> (r = Inl QueryExecutionError \<or> (\<exists>d. r = Inl (TemplateProcessingError d))))"
proof (cases "build_query env ''set-active-version''
             [(''investigation_name'', PStr (investigation_name env)), (''version'', PStr version)] s")
  case (Pair b sb)
  note bq = build_query_pure[OF Pair]
  show ?thesis
  proof (cases b)
    case (Inl e)
    with Pair bq assms show ?thesis
      by (auto simp: set_active_version_def bind_def new_events_def)
  next
    case (Inr q)
    obtain w sw where w: "execute_write env ''set-active-version'' q s = (w, sw)"
      by (cases "execute_write env ''set-active-version'' q s")
    note fr = execute_write_frame[OF w]
    note cl = execute_write_closed[OF w]
    show ?thesis
    proof (cases w)
      case (Inl e)
      with w have "e = QueryExecutionError" by (auto dest: execute_write_error)
      with Inl Inr Pair bq w fr cl assms show ?thesis
        by (auto simp: set_active_version_def bind_def new_events_def split: if_splits)
    next
      case (Inr u)
      with \<open>b = Inr q\<close> Pair bq w cl assms show ?thesis
        by (auto simp: set_active_version_def bind_def new_events_def split: if_splits)
    qed
  qed
qed

theorem set_active_version_cache_witness:
  "set_active_version (demo_env never []) ''v2'' (fresh (Some ''v1'') None)
       = (Inr (), (fresh (Some ''v2'') None)\<lparr>trace := [(OpenTx ''investigation_board'' WRITE, True),
            (TxQuery 0 ''set-active-version'', True), (TxCommit 0, True), (TxClose 0, True)]\<rparr>)
   \<and> set_active_version (demo_env commit_fails []) ''v2'' (fresh (Some ''v1'') None)
       = (Inl QueryExecutionError, (fresh (Some ''v1'') None)\<lparr>trace := [(OpenTx ''investigation_board'' WRITE, True),
            (TxQuery 0 ''set-active-version'', True), (TxCommit 0, False), (TxClose 0, True)]\<rparr>)
   \<and> active_version ((fresh (Some ''v2'') None)\<lparr>trace := [(OpenTx ''investigation_board'' WRITE, True),
            (TxQuery 0 ''set-active-version'', True), (TxCommit 0, True), (TxClose 0, True)]\<rparr>) = Some ''v2''
   \<and> active_version ((fresh (Some ''v1'') None)\<lparr>trace := [(OpenTx ''investigation_board'' WRITE, True),
            (TxQuery 0 ''set-active-version'', True), (TxCommit 0, False), (TxClose 0, True)]\<rparr>)
       = active_version (fresh (Some ''v1'') None)"
proof -
  have ok: "set_active_version (demo_env never []) ''v2'' (fresh (Some ''v1'') None)
       = (Inr (), (fresh (Some ''v2'') None)\<lparr>trace := [(OpenTx ''investigation_board'' WRITE, True),
            (TxQuery 0 ''set-active-version'', True), (TxCommit 0, True), (TxClose 0, True)]\<rparr>)"
    by (simp add: set_active_version_def bind_def build_query_demo_sav execute_write_never fresh_def)
  have ko: "set_active_version (demo_env commit_fails []) ''v2'' (fresh (Some ''v1'') None)
       = (Inl QueryExecutionError, (fresh (Some ''v1'') None)\<lparr>trace := [(OpenTx ''investigation_board'' WRITE, True),
            (TxQuery 0 ''set-active-version'', True), (TxCommit 0, False), (TxClose 0, True)]\<rparr>)"
    by (simp add: set_active_version_def bind_def build_query_demo_sav execute_write_commit_fails fresh_def)
  show ?thesis
    using set_active_version_cache[OF ok] set_active_version_cache[OF ko] ok ko
    by simp
qed

subsection \<open>The calls a run records\<close>

lemma emitsI:
  assumes "\<And>s r s'. m s = (r, s') \<Longrightarrow>
     \<exists>seg. calls s' = calls s @ seg \<and> (case r of Inr x \<Rightarrow> P x seg | Inl e \<Rightarrow> Q seg)"
  shows "emits m P Q"
  using assms unfolding emits_def by blast

lemma emitsD:
  assumes "emits m P Q" and "m s = (r, s')"
  shows "\<exists>seg. calls s' = calls s @ seg \<and> (case r of Inr x \<Rightarrow> P x seg | Inl e \<Rightarrow> Q seg)"
  using assms unfolding emits_def by blast

lemma emits_weaken:
  assumes "emits m P Q" and "\<And>x seg. P x seg \<Longrightarrow> P' x seg" and "\<And>seg. Q seg \<Longrightarrow> Q' seg"
  shows "emits m P' Q'"
proof (rule emitsI)
  fix s r s' assume "m s = (r, s')"
  from emitsD[OF assms(1) this] obtain seg where seg: "calls s' = calls s @ seg"
    "case r of Inr x \<Rightarrow> P x seg | Inl e \<Rightarrow> Q seg" by blast
  then have "case r of Inr x \<Rightarrow> P' x seg | Inl e \<Rightarrow> Q' seg"
    by (cases r) (simp_all add: assms(2,3))
  with seg(1) show "\<exists>seg. calls s' = calls s @ seg \<and> (case r of Inr x \<Rightarrow> P' x seg | Inl e \<Rightarrow> Q' seg)"
    by blast
qed

lemma emits_ret: "P x [] \<Longrightarrow> emits (ret x) P Q"
  by (simp add: emits_def ret_def)

lemma emits_raise: "Q [] \<Longrightarrow> emits (raise e) P Q"
  by (simp add: emits_def raise_def)

lemma emits_lift_py: "(\<And>x. P x []) \<Longrightarrow> Q [] \<Longrightarrow> emits (lift_py m) P Q"
  by (cases m) (simp_all add: lift_py_def emits_ret emits_raise)

lemma emits_bind:
  assumes m: "emits m P Q"
      and f: "\<And>x. emits (f x) (P' x) (Q' x)"
  shows "emits (bind m f)
           (\<lambda>y seg. \<exists>x a b. seg = a @ b \<and> P x a \<and> P' x y b)
           (\<lambda>seg. Q seg \<or> (\<exists>x a b. seg = a @ b \<and> P x a \<and> Q' x b))"
proof (rule emitsI)
  fix s r s' assume run: "bind m f s = (r, s')"
  obtain r1 s1 where m1: "m s = (r1, s1)" by (cases "m s")
  from emitsD[OF m m1] obtain a where a: "calls s1 = calls s @ a"
    "case r1 of Inr x \<Rightarrow> P x a | Inl e \<Rightarrow> Q a" by blast
  show "\<exists>seg. calls s' = calls s @ seg \<and> (case r of
           Inr y \<Rightarrow> \<exists>x a b. seg = a @ b \<and> P x a \<and> P' x y b
         | Inl e \<Rightarrow> Q seg \<or> (\<exists>x a b. seg = a @ b \<and> P x a \<and> Q' x b))"
  proof (cases r1)
    case (Inl e)
    with run m1 a show ?thesis by (auto simp: bind_def)
  next
    case (Inr x)
    with run m1 have f1: "f x s1 = (r, s')" by (simp add: bind_def)
    from emitsD[OF f f1] obtain b where b: "calls s' = calls s1 @ b"
      "case r of Inr y \<Rightarrow> P' x y b | Inl e \<Rightarrow> Q' x b" by blast
    from a b Inr have c: "calls s' = calls s @ (a @ b)" and pa: "P x a" by simp_all
    show ?thesis
    proof (cases r)
      case (Inl e)
      with b pa have "\<exists>x a' b'. a @ b = a' @ b' \<and> P x a' \<and> Q' x b'" by auto
      with c Inl show ?thesis by (intro exI[of _ "a @ b"]) simp
    next
      case (Inr y)
      with b pa have "\<exists>x a' b'. a @ b = a' @ b' \<and> P x a' \<and> P' x y b'" by auto
      with c Inr show ?thesis by (intro exI[of _ "a @ b"]) simp
    qed
  qed
qed

lemma emits_pure:
  assumes "\<And>s r s'. m s = (r, s') \<Longrightarrow> calls s' = calls s"
  shows "emits m (\<lambda>x seg. seg = []) (\<lambda>seg. seg = [])"
  by (rule emitsI) (auto dest: assms split: sum.splits)

lemma emits_resolve_version: "emits (resolve_version v) (\<lambda>x seg. seg = []) (\<lambda>seg. seg = [])"
  by (rule emits_pure) (auto simp: resolve_version_def split: option.splits)

lemma emits_build_query: "emits (build_query env op ps) (\<lambda>x seg. seg = []) (\<lambda>seg. seg = [])"
  by (rule emits_pure) (auto dest: build_query_pure)

lemma emits_execute_write: "emits (execute_write env op q) (\<lambda>x seg. seg = []) (\<lambda>seg. seg = [])"
  by (rule emits_pure) (auto dest: execute_write_frame)

lemma emits_record_call: "emits (record_call c) (\<lambda>x seg. seg = [c]) (\<lambda>seg. seg = [c])"
  by (rule emitsI) (auto simp: record_call_def)

lemma emits_write_method:
  "emits (bind (record_call c) (\<lambda>_.
          bind (resolve_version v) (\<lambda>resolved_version.
          bind (build_query env op (ps resolved_version)) (\<lambda>query.
          execute_write env op query))))
     (\<lambda>x seg. seg = [c]) (\<lambda>seg. seg = [c])"
  by (rule emits_weaken[OF emits_bind[OF emits_record_call emits_bind[OF emits_resolve_version
        emits_bind[OF emits_build_query emits_execute_write]]]]) auto

lemma emits_node_delete:
  "emits (node_delete env i v) (\<lambda>x seg. seg = [NodeDelete i v]) (\<lambda>seg. seg = [NodeDelete i v])"
  unfolding node_delete_def by (rule emits_write_method)

lemma emits_node_create:
  "emits (node_create env i n x y p d v) (\<lambda>u seg. seg = [NodeCreate i n x y p d v])
     (\<lambda>seg. seg = [NodeCreate i n x y p d v])"
  unfolding node_create_def by (rule emits_write_method)

lemma emits_node_update:
  "emits (node_update env i n x y p d v) (\<lambda>u seg. seg = [NodeUpdate i n x y p d v])
     (\<lambda>seg. seg = [NodeUpdate i n x y p d v])"
  unfolding node_update_def by (rule emits_write_method)

lemma emits_edge_delete:
  "emits (edge_delete env i v) (\<lambda>x seg. seg = [EdgeDelete i v]) (\<lambda>seg. seg = [EdgeDelete i v])"
  unfolding edge_delete_def by (rule emits_write_method)

lemma emits_edge_create:
  "emits (edge_create env i a b d v) (\<lambda>u seg. seg = [EdgeCreate i a b d v])
     (\<lambda>seg. seg = [EdgeCreate i a b d v])"
  unfolding edge_create_def by (rule emits_write_method)

lemma emits_edge_update:
  "emits (edge_update env i d v) (\<lambda>u seg. seg = [EdgeUpdate i d v])
     (\<lambda>seg. seg = [EdgeUpdate i d v])"
  unfolding edge_update_def by (rule emits_write_method)

lemma emits_for_each:
  assumes "\<And>x. x \<in> set xs \<Longrightarrow> emits (body x) (\<lambda>u. P) Q"
      and "P []" and "\<And>a b. P a \<Longrightarrow> P b \<Longrightarrow> P (a @ b)" and "\<And>a b. P a \<Longrightarrow> Q b \<Longrightarrow> Q (a @ b)"
      and "\<And>a. P a \<Longrightarrow> Q a"
  shows "emits (for_each xs body) (\<lambda>u. P) Q"
  using assms(1)
proof (induction xs)
  case Nil
  show ?case by (simp add: emits_ret assms(2))
next
  case (Cons x xs)
  have b: "emits (body x) (\<lambda>u. P) Q" by (rule Cons.prems) simp
  have r: "emits (for_each xs body) (\<lambda>u. P) Q" by (rule Cons.IH) (simp add: Cons.prems)
  show ?case
    unfolding for_each.simps
    by (rule emits_weaken[OF emits_bind[OF b r]]) (use assms(3,4) in \<open>auto simp: append_eq_append_conv2 dest: assms(5)\<close>)
qed

lemma bind_ret [simp]: "bind (ret x) f = f x"
  by (simp add: bind_def ret_def)

lemma bind_raise [simp]: "bind (raise e) f = raise e"
  by (simp add: bind_def raise_def)

lemma emits_bind_lift:
  assumes "\<And>x. emits (f x) P Q" and "Q []"
  shows "emits (bind (lift_py m) f) P Q"
  by (cases m) (simp_all add: lift_py_def assms emits_raise)

lemma emits_delete_nodes:
  "emits (delete_nodes env rv dbn newn) (\<lambda>u. list_all (\<lambda>c. phase c = 0)) (list_all (\<lambda>c. phase c = 0))"
  unfolding delete_nodes_def
proof (rule emits_for_each)
  fix x
  show "emits (if map_of newn x = None then node_delete env (PStr x) (Some rv) else ret ())
          (\<lambda>u. list_all (\<lambda>c. phase c = 0)) (list_all (\<lambda>c. phase c = 0))"
    by (auto intro: emits_ret emits_weaken[OF emits_node_delete])
qed simp_all

lemma emits_delete_edges:
  "emits (delete_edges env rv dbe newe) (\<lambda>u. list_all (\<lambda>c. phase c = 3)) (list_all (\<lambda>c. phase c = 3))"
  unfolding delete_edges_def
proof (rule emits_for_each)
  fix x
  show "emits (if map_of newe x = None then edge_delete env (PStr x) (Some rv) else ret ())
          (\<lambda>u. list_all (\<lambda>c. phase c = 3)) (list_all (\<lambda>c. phase c = 3))"
    by (auto intro: emits_ret emits_weaken[OF emits_edge_delete])
qed simp_all

lemma emits_create_edges:
  "emits (create_edges env rv dbe newe) (\<lambda>u. list_all (\<lambda>c. phase c = 4)) (list_all (\<lambda>c. phase c = 4))"
  unfolding create_edges_def
proof (rule emits_for_each)
  fix item
  show "emits (case item of (edge_id_str, edge_obj) \<Rightarrow>
       if map_of dbe edge_id_str = None
       then bind (lift_py (get_field edge_obj ''node1'')) (\<lambda>n1.
            bind (lift_py (get_field edge_obj ''node2'')) (\<lambda>n2.
            bind (lift_py (get_field edge_obj ''description'')) (\<lambda>description.
              edge_create env (PStr edge_id_str) (PStr (py_str env n1)) (PStr (py_str env n2))
                description (Some rv))))
       else ret ())
          (\<lambda>u. list_all (\<lambda>c. phase c = 4)) (list_all (\<lambda>c. phase c = 4))"
    by (auto split: prod.splits intro!: emits_ret emits_bind_lift emits_weaken[OF emits_edge_create])
qed simp_all

lemma paired_append: "paired a \<Longrightarrow> paired b \<Longrightarrow> paired (a @ b)"
  by (induction a rule: paired.induct) simp_all

lemma paired_reconciled_append: "paired a \<Longrightarrow> reconciled b \<Longrightarrow> reconciled (a @ b)"
  by (induction a rule: paired.induct) simp_all

lemma paired_reconciled: "paired a \<Longrightarrow> reconciled a"
  by (induction a rule: paired.induct) simp_all

lemma emits_delete_create:
  "emits (bind (edge_delete env i v) (\<lambda>_. edge_create env i a b d v)) (\<lambda>u. paired) reconciled"
  by (rule emits_weaken[OF emits_bind[OF emits_edge_delete emits_edge_create]]) auto

lemma emits_update_edges:
  "emits (update_edges env rv dbe newe) (\<lambda>u. paired) reconciled"
  unfolding update_edges_def
proof (rule emits_for_each)
  fix item
  show "emits (case item of (edge_id_str, db_edge) \<Rightarrow>
       (case map_of newe edge_id_str of
          None \<Rightarrow> ret ()
        | Some edge_obj \<Rightarrow>
            bind (lift_py (edge_fields env db_edge edge_obj)) (\<lambda>fields.
              case fields of (db_node1, db_node2, db_desc, new_node1, new_node2, new_desc) \<Rightarrow>
              (let endpoints_changed = (db_node1 \<noteq> new_node1 \<or> db_node2 \<noteq> new_node2);
                   desc_changed = py_ne env db_desc new_desc
               in if endpoints_changed
                  then bind (edge_delete env (PStr edge_id_str) (Some rv)) (\<lambda>_.
                         edge_create env (PStr edge_id_str) (PStr new_node1) (PStr new_node2)
                           new_desc (Some rv))
                  else if desc_changed
                  then edge_update env (PStr edge_id_str) new_desc (Some rv)
                  else ret ()))))
          (\<lambda>u. paired) reconciled"
    by (auto simp: Let_def split: prod.splits option.splits
        intro!: emits_ret emits_bind_lift emits_delete_create emits_weaken[OF emits_edge_update])
qed (simp_all add: paired_append paired_reconciled_append paired_reconciled)

lemma emits_execute_read: "emits (execute_read env op q) (\<lambda>x seg. seg = []) (\<lambda>seg. seg = [])"
  by (rule emits_pure) (auto dest: execute_read_frame)

lemma emits_graph_by_version_get:
  "emits (graph_by_version_get env v) (\<lambda>x seg. seg = []) (\<lambda>seg. seg = [])"
  unfolding graph_by_version_get_def
  by (rule emits_weaken[OF emits_bind[OF emits_resolve_version emits_bind[OF emits_build_query
        emits_bind[OF emits_execute_read, where P' = "\<lambda>x y seg. seg = []" and Q' = "\<lambda>x seg. seg = []"]]]])
     (auto intro: emits_ret emits_raise)

subsection \<open>The source against the specification\<close>

lemma get_field_value:
  "get_field n f = (case field_value n f of None \<Rightarrow> Inl AttributeError | Some v \<Rightarrow> Inr v)"
  by (cases n) (simp_all split: option.splits)

lemma dict_get_value:
  "dict_get d f = (case stored_value d f of None \<Rightarrow> Inl AttributeError | Some v \<Rightarrow> Inr v)"
  by (cases d) simp_all

lemma node_values_fields: "(node_fields env n = Inr t) = (node_values env n = Some t)"
  by (simp add: node_fields_def node_values_def get_field_value pbind_def split: option.splits sum.splits)

lemma same_edge_iff: "same_edge env a e = edges_equal env a e"
  by (simp add: same_edge_def edges_equal_def equal_field_def equal_endpoint_def edge_fields_def
      get_field_value dict_get_value pbind_def split: option.splits sum.splits)

lemma same_node_iff: "same_node env a n = nodes_equal env a n"
proof (cases "node_fields env n")
  case (Inl e)
  then have "node_values env n = None"
    by (cases "node_values env n") (simp_all add: node_values_fields[symmetric])
  then have "\<not> nodes_equal env a n"
    by (simp add: nodes_equal_def equal_field_def equal_position_def node_values_def
        split: option.splits sum.splits)
  with Inl show ?thesis by (simp add: same_node_def pbind_def)
next
  case (Inr t)
  then have v: "node_values env n = Some t" by (simp add: node_values_fields)
  obtain name x y p d where t: "t = (name, x, y, p, d)" by (cases t) auto
  from v t show ?thesis
    by (simp add: same_node_def Inr pbind_def need_update_def nodes_equal_def equal_field_def
        equal_position_def node_values_def dict_get_value split: option.splits sum.splits)
qed

lemma tracks_ret: "tracks (ret x) []"
  by (simp add: tracks_def emits_ret)

lemma tracks_raise: "tracks (raise e) cs"
  by (simp add: tracks_def emits_raise)

lemma tracks_bind:
  assumes "tracks m a" and "\<And>x. tracks (f x) b"
  shows "tracks (bind m f) (a @ b)"
  unfolding tracks_def
  by (rule emits_weaken[OF emits_bind[OF assms(1)[unfolded tracks_def] assms(2)[unfolded tracks_def]]])
     (auto simp: prefix_def)

lemma tracks_lift:
  assumes "\<And>x. m = Inr x \<Longrightarrow> tracks (f x) cs"
  shows "tracks (bind (lift_py m) f) cs"
  by (cases m) (simp_all add: lift_py_def assms tracks_raise)

lemma tracks_for_each:
  assumes "\<And>x. x \<in> set xs \<Longrightarrow> tracks (body x) (st x)"
  shows "tracks (for_each xs body) (concat (map st xs))"
  using assms
proof (induction xs)
  case Nil
  show ?case by (simp add: tracks_ret)
next
  case (Cons x xs)
  have "tracks (bind (body x) (\<lambda>_. for_each xs body)) (st x @ concat (map st xs))"
    by (rule tracks_bind) (simp_all add: Cons)
  then show ?case by simp
qed

lemma tracks_call:
  "tracks (node_delete env i v) [NodeDelete i v]"
  "tracks (node_create env i n x y p d v) [NodeCreate i n x y p d v]"
  "tracks (node_update env i n x y p d v) [NodeUpdate i n x y p d v]"
  "tracks (edge_delete env i v) [EdgeDelete i v]"
  "tracks (edge_create env i a b d v) [EdgeCreate i a b d v]"
  "tracks (edge_update env i d v) [EdgeUpdate i d v]"
  unfolding tracks_def
  by (rule emits_weaken[OF emits_node_delete], simp, simp,
      rule emits_weaken[OF emits_node_create], simp, simp,
      rule emits_weaken[OF emits_node_update], simp, simp,
      rule emits_weaken[OF emits_edge_delete], simp, simp,
      rule emits_weaken[OF emits_edge_create], simp, simp,
      rule emits_weaken[OF emits_edge_update], simp, simp)

lemma tracks_delete_nodes:
  "tracks (delete_nodes env v pn dn) (node_deletions v (pn, dn, pe, de))"
  unfolding delete_nodes_def node_deletions_def prod.case
  by (rule tracks_for_each) (simp add: tracks_call tracks_ret)

lemma tracks_delete_edges:
  "tracks (delete_edges env v pe de) (edge_deletions v (pn, dn, pe, de))"
  unfolding delete_edges_def edge_deletions_def prod.case
  by (rule tracks_for_each) (simp add: tracks_call tracks_ret)

lemma tracks_create_nodes:
  "tracks (create_nodes env v pn dn) (node_creations env v (pn, dn, pe, de))"
  unfolding create_nodes_def node_creations_def prod.case
proof (rule tracks_for_each)
  fix item assume "item \<in> set dn"
  obtain k n where item: "item = (k, n)" by (cases item)
  show "tracks (case item of (node_id_str, node_obj) \<Rightarrow>
       if map_of pn node_id_str = None
       then bind (lift_py (node_fields env node_obj)) (\<lambda>new.
              case new of (name, pos_x, pos_y, picture_path, description) \<Rightarrow>
              node_create env (PStr node_id_str) name pos_x pos_y picture_path description (Some v))
       else ret ())
     (case item of (k, n) \<Rightarrow>
          if map_of pn k = None
          then (case node_values env n of
                  None \<Rightarrow> []
                | Some (name, pos_x, pos_y, picture_path, description) \<Rightarrow>
                    [NodeCreate (PStr k) name pos_x pos_y picture_path description (Some v)])
          else [])"
  proof (cases "map_of pn k = None")
    case True
    have "tracks (bind (lift_py (node_fields env n)) (\<lambda>new.
              case new of (name, pos_x, pos_y, picture_path, description) \<Rightarrow>
              node_create env (PStr k) name pos_x pos_y picture_path description (Some v)))
       (case node_values env n of
                  None \<Rightarrow> []
                | Some (name, pos_x, pos_y, picture_path, description) \<Rightarrow>
                    [NodeCreate (PStr k) name pos_x pos_y picture_path description (Some v)])"
    proof (rule tracks_lift)
      fix new assume "node_fields env n = Inr new"
      then have "node_values env n = Some new" by (simp add: node_values_fields)
      then show "tracks (case new of (name, pos_x, pos_y, picture_path, description) \<Rightarrow>
              node_create env (PStr k) name pos_x pos_y picture_path description (Some v))
         (case node_values env n of
                  None \<Rightarrow> []
                | Some (name, pos_x, pos_y, picture_path, description) \<Rightarrow>
                    [NodeCreate (PStr k) name pos_x pos_y picture_path description (Some v)])"
        by (cases new) (simp add: tracks_call)
    qed
    with True show ?thesis by (simp add: item)
  next
    case False
    then obtain y where "map_of pn k = Some y" by blast
    then show ?thesis by (simp add: item tracks_ret)
  qed
qed

lemma tracks_update_nodes:
  "tracks (update_nodes env v pn dn) (node_updates env v (pn, dn, pe, de))"
  unfolding update_nodes_def node_updates_def prod.case
proof (rule tracks_for_each)
  fix item assume "item \<in> set pn"
  obtain k a where item: "item = (k, a)" by (cases item)
  show "tracks (case item of (node_id_str, db_node) \<Rightarrow>
       (case map_of dn node_id_str of
          None \<Rightarrow> ret ()
        | Some node_obj \<Rightarrow>
            bind (lift_py (node_fields env node_obj)) (\<lambda>new.
            bind (lift_py (need_update env db_node new)) (\<lambda>changed.
              if changed
              then (case new of (new_name, new_pos_x, new_pos_y, new_picture, new_desc) \<Rightarrow>
                      node_update env (PStr node_id_str) new_name new_pos_x new_pos_y
                        new_picture new_desc (Some v))
              else ret ()))))
     (case item of (k, a) \<Rightarrow>
          case map_of dn k of
            None \<Rightarrow> []
          | Some n \<Rightarrow>
              if nodes_equal env a n then []
              else (case node_values env n of
                      None \<Rightarrow> []
                    | Some (name, pos_x, pos_y, picture_path, description) \<Rightarrow>
                        [NodeUpdate (PStr k) name pos_x pos_y picture_path description (Some v)]))"
  proof (cases "map_of dn k")
    case None
    then show ?thesis by (simp add: item tracks_ret)
  next
    case (Some n)
    let ?cs = "if nodes_equal env a n then []
              else (case node_values env n of
                      None \<Rightarrow> []
                    | Some (name, pos_x, pos_y, picture_path, description) \<Rightarrow>
                        [NodeUpdate (PStr k) name pos_x pos_y picture_path description (Some v)])"
    have "tracks (bind (lift_py (node_fields env n)) (\<lambda>new.
            bind (lift_py (need_update env a new)) (\<lambda>changed.
              if changed
              then (case new of (new_name, new_pos_x, new_pos_y, new_picture, new_desc) \<Rightarrow>
                      node_update env (PStr k) new_name new_pos_x new_pos_y
                        new_picture new_desc (Some v))
              else ret ()))) ?cs"
    proof (rule tracks_lift)
      fix new assume nf: "node_fields env n = Inr new"
      then have nv: "node_values env n = Some new" by (simp add: node_values_fields)
      show "tracks (bind (lift_py (need_update env a new)) (\<lambda>changed.
              if changed
              then (case new of (new_name, new_pos_x, new_pos_y, new_picture, new_desc) \<Rightarrow>
                      node_update env (PStr k) new_name new_pos_x new_pos_y
                        new_picture new_desc (Some v))
              else ret ())) ?cs"
      proof (rule tracks_lift)
        fix changed assume nu: "need_update env a new = Inr changed"
        from nf nu have "nodes_equal env a n = (\<not> changed)"
          by (simp add: same_node_iff[symmetric] same_node_def pbind_def)
        with nv show "tracks (if changed
              then (case new of (new_name, new_pos_x, new_pos_y, new_picture, new_desc) \<Rightarrow>
                      node_update env (PStr k) new_name new_pos_x new_pos_y
                        new_picture new_desc (Some v))
              else ret ()) ?cs"
          by (cases new) (simp add: tracks_call tracks_ret)
      qed
    qed
    with Some show ?thesis by (simp add: item)
  qed
qed

lemma get_field_some: "get_field e f = Inr x \<Longrightarrow> field_value e f = Some x"
  by (simp add: get_field_value split: option.splits)

lemma edge_fields_values:
  assumes "edge_fields env a e = Inr (a1, b1, dd, a2, b2, d2)"
  shows "edge_values env e = Some (PStr a2, PStr b2, d2)"
    and "equal_endpoint env a e ''node1'' = (a1 = a2)"
    and "equal_endpoint env a e ''node2'' = (b1 = b2)"
    and "equal_field env a e ''description'' = (\<not> py_ne env dd d2)"
  using assms
  by (auto simp: edge_fields_def edge_values_def equal_endpoint_def equal_field_def
      get_field_value dict_get_value pbind_def split: option.splits sum.splits)

lemma tracks_create_edges:
  "tracks (create_edges env v pe de) (edge_creations env v (pn, dn, pe, de))"
  unfolding create_edges_def edge_creations_def prod.case
proof (rule tracks_for_each)
  fix item assume "item \<in> set de"
  obtain k e where item: "item = (k, e)" by (cases item)
  let ?cs = "case edge_values env e of
                  None \<Rightarrow> []
                | Some (node1, node2, description) \<Rightarrow>
                    [EdgeCreate (PStr k) node1 node2 description (Some v)]"
  show "tracks (case item of (edge_id_str, edge_obj) \<Rightarrow>
       if map_of pe edge_id_str = None
       then bind (lift_py (get_field edge_obj ''node1'')) (\<lambda>n1.
            bind (lift_py (get_field edge_obj ''node2'')) (\<lambda>n2.
            bind (lift_py (get_field edge_obj ''description'')) (\<lambda>description.
              edge_create env (PStr edge_id_str) (PStr (py_str env n1)) (PStr (py_str env n2))
                description (Some v))))
       else ret ())
     (case item of (k, e) \<Rightarrow>
          if map_of pe k = None
          then (case edge_values env e of
                  None \<Rightarrow> []
                | Some (node1, node2, description) \<Rightarrow>
                    [EdgeCreate (PStr k) node1 node2 description (Some v)])
          else [])"
  proof (cases "map_of pe k")
    case None
    have "tracks (bind (lift_py (get_field e ''node1'')) (\<lambda>n1.
            bind (lift_py (get_field e ''node2'')) (\<lambda>n2.
            bind (lift_py (get_field e ''description'')) (\<lambda>description.
              edge_create env (PStr k) (PStr (py_str env n1)) (PStr (py_str env n2))
                description (Some v))))) ?cs"
    proof (intro tracks_lift)
      fix n1 n2 d
      assume "get_field e ''node1'' = Inr n1" "get_field e ''node2'' = Inr n2"
        "get_field e ''description'' = Inr d"
      then have "edge_values env e = Some (PStr (py_str env n1), PStr (py_str env n2), d)"
        by (simp add: edge_values_def get_field_some)
      then show "tracks (edge_create env (PStr k) (PStr (py_str env n1)) (PStr (py_str env n2))
                d (Some v)) ?cs"
        by (simp add: tracks_call)
    qed
    with None show ?thesis by (simp add: item)
  next
    case (Some y)
    then show ?thesis by (simp add: item tracks_ret)
  qed
qed

lemma tracks_update_edges:
  "tracks (update_edges env v pe de) (edge_reconciliation env v (pn, dn, pe, de))"
  unfolding update_edges_def edge_reconciliation_def prod.case
proof (rule tracks_for_each)
  fix item assume "item \<in> set pe"
  obtain k a where item: "item = (k, a)" by (cases item)
  show "tracks (case item of (edge_id_str, db_edge) \<Rightarrow>
       (case map_of de edge_id_str of
          None \<Rightarrow> ret ()
        | Some edge_obj \<Rightarrow>
            bind (lift_py (edge_fields env db_edge edge_obj)) (\<lambda>fields.
              case fields of (db_node1, db_node2, db_desc, new_node1, new_node2, new_desc) \<Rightarrow>
              (let endpoints_changed = (db_node1 \<noteq> new_node1 \<or> db_node2 \<noteq> new_node2);
                   desc_changed = py_ne env db_desc new_desc
               in if endpoints_changed
                  then bind (edge_delete env (PStr edge_id_str) (Some v)) (\<lambda>_.
                         edge_create env (PStr edge_id_str) (PStr new_node1) (PStr new_node2)
                           new_desc (Some v))
                  else if desc_changed
                  then edge_update env (PStr edge_id_str) new_desc (Some v)
                  else ret ()))))
     (case item of (k, a) \<Rightarrow>
          case map_of de k of
            None \<Rightarrow> []
          | Some e \<Rightarrow>
              (case edge_values env e of
                 None \<Rightarrow> []
               | Some (node1, node2, description) \<Rightarrow>
                   if \<not> (equal_endpoint env a e ''node1'' \<and> equal_endpoint env a e ''node2'')
                   then [EdgeDelete (PStr k) (Some v),
                         EdgeCreate (PStr k) node1 node2 description (Some v)]
                   else if \<not> equal_field env a e ''description''
                   then [EdgeUpdate (PStr k) description (Some v)]
                   else []))"
  proof (cases "map_of de k")
    case None
    then show ?thesis by (simp add: item tracks_ret)
  next
    case (Some e)
    let ?cs = "case edge_values env e of
                 None \<Rightarrow> []
               | Some (node1, node2, description) \<Rightarrow>
                   if \<not> (equal_endpoint env a e ''node1'' \<and> equal_endpoint env a e ''node2'')
                   then [EdgeDelete (PStr k) (Some v),
                         EdgeCreate (PStr k) node1 node2 description (Some v)]
                   else if \<not> equal_field env a e ''description''
                   then [EdgeUpdate (PStr k) description (Some v)]
                   else []"
    have "tracks (bind (lift_py (edge_fields env a e)) (\<lambda>fields.
              case fields of (db_node1, db_node2, db_desc, new_node1, new_node2, new_desc) \<Rightarrow>
              (let endpoints_changed = (db_node1 \<noteq> new_node1 \<or> db_node2 \<noteq> new_node2);
                   desc_changed = py_ne env db_desc new_desc
               in if endpoints_changed
                  then bind (edge_delete env (PStr k) (Some v)) (\<lambda>_.
                         edge_create env (PStr k) (PStr new_node1) (PStr new_node2)
                           new_desc (Some v))
                  else if desc_changed
                  then edge_update env (PStr k) new_desc (Some v)
                  else ret ()))) ?cs"
    proof (rule tracks_lift)
      fix fields assume ef: "edge_fields env a e = Inr fields"
      obtain a1 b1 dd a2 b2 d2 where f: "fields = (a1, b1, dd, a2, b2, d2)"
        by (cases fields) auto
      have dc: "tracks (bind (edge_delete env (PStr k) (Some v)) (\<lambda>_.
                         edge_create env (PStr k) (PStr a2) (PStr b2) d2 (Some v)))
            ([EdgeDelete (PStr k) (Some v)] @ [EdgeCreate (PStr k) (PStr a2) (PStr b2) d2 (Some v)])"
        by (rule tracks_bind) (rule tracks_call)+
      from edge_fields_values[OF ef[unfolded f]] dc
      show "tracks (case fields of (db_node1, db_node2, db_desc, new_node1, new_node2, new_desc) \<Rightarrow>
              (let endpoints_changed = (db_node1 \<noteq> new_node1 \<or> db_node2 \<noteq> new_node2);
                   desc_changed = py_ne env db_desc new_desc
               in if endpoints_changed
                  then bind (edge_delete env (PStr k) (Some v)) (\<lambda>_.
                         edge_create env (PStr k) (PStr new_node1) (PStr new_node2)
                           new_desc (Some v))
                  else if desc_changed
                  then edge_update env (PStr k) new_desc (Some v)
                  else ret ())) ?cs"
        by (simp add: f Let_def tracks_call tracks_ret)
    qed
    with Some show ?thesis by (simp add: item)
  qed
qed

lemma tracks_sync_indexes:
  "tracks (sync_indexes env v idx) (plan env v idx)"
proof -
  obtain pn dn pe de where idx: "idx = (pn, dn, pe, de)" by (cases idx) auto
  show ?thesis
    unfolding sync_indexes_def plan_def idx prod.case
    by (intro tracks_bind tracks_delete_nodes tracks_create_nodes tracks_update_nodes
        tracks_delete_edges tracks_create_edges tracks_update_edges)
qed

lemma update_graph_plan:
  assumes g: "graph_by_version_get env (Some version) s = (Inr db_graph, s1)"
      and bi: "build_indexes env db_graph nodes edges = Inr idx"
      and ug: "update_graph env version nodes edges s = (r, s')"
  shows "prefix (new_calls s s') (plan env version idx)"
    and "r = Inr () \<Longrightarrow> new_calls s s' = plan env version idx"
proof -
  from emitsD[OF emits_graph_by_version_get g] have c1: "calls s1 = calls s" by simp
  from ug have run: "sync_indexes env version idx s1 = (r, s')"
    by (simp add: update_graph_def bind_def g bi lift_py_def ret_def resolve_version_def)
  from emitsD[OF tracks_sync_indexes[unfolded tracks_def] run] c1
  show "prefix (new_calls s s') (plan env version idx)"
    by (cases r) (auto simp: new_calls_def)
  show "new_calls s s' = plan env version idx" if "r = Inr ()"
    using emitsD[OF tracks_sync_indexes[unfolded tracks_def] run] c1 that
    by (auto simp: new_calls_def)
qed

lemma update_graph_no_indexes:
  assumes ug: "update_graph env version nodes edges s = (r, s')"
      and "graph_by_version_get env (Some version) s = (g, s1)"
      and "case g of Inl e \<Rightarrow> True | Inr db_graph \<Rightarrow> (case build_indexes env db_graph nodes edges of Inl e \<Rightarrow> True | Inr idx \<Rightarrow> False)"
  shows "new_calls s s' = []"
proof -
  from emitsD[OF emits_graph_by_version_get assms(2)] have c1: "calls s1 = calls s"
    by (cases g) simp_all
  from assms have "s' = s1"
    by (auto simp: update_graph_def bind_def lift_py_def raise_def split: sum.splits)
  with c1 show ?thesis by (simp add: new_calls_def)
qed

lemma list_all_concat_map:
  "list_all P (concat (map f xs)) = (\<forall>x \<in> set xs. list_all P (f x))"
  by (induction xs) simp_all

lemma plan_phases:
  "list_all (\<lambda>c. phase c = 0) (node_deletions v idx)"
  "list_all (\<lambda>c. phase c = 1) (node_creations env v idx)"
  "list_all (\<lambda>c. phase c = 2) (node_updates env v idx)"
  "list_all (\<lambda>c. phase c = 3) (edge_deletions v idx)"
  "list_all (\<lambda>c. phase c = 4) (edge_creations env v idx)"
proof -
  obtain pn dn pe de where idx: "idx = (pn, dn, pe, de)" by (cases idx) auto
  show "list_all (\<lambda>c. phase c = 0) (node_deletions v idx)"
    by (simp add: idx node_deletions_def list_all_concat_map)
  show "list_all (\<lambda>c. phase c = 1) (node_creations env v idx)"
    by (simp add: idx node_creations_def list_all_concat_map split: prod.splits option.splits)
  show "list_all (\<lambda>c. phase c = 2) (node_updates env v idx)"
    by (simp add: idx node_updates_def list_all_concat_map split: prod.splits option.splits)
  show "list_all (\<lambda>c. phase c = 3) (edge_deletions v idx)"
    by (simp add: idx edge_deletions_def list_all_concat_map)
  show "list_all (\<lambda>c. phase c = 4) (edge_creations env v idx)"
    by (simp add: idx edge_creations_def list_all_concat_map split: prod.splits option.splits)
qed

lemma paired_concat_map: "(\<And>x. x \<in> set xs \<Longrightarrow> paired (f x)) \<Longrightarrow> paired (concat (map f xs))"
  by (induction xs) (simp_all add: paired_append)

lemma plan_paired: "paired (edge_reconciliation env v idx)"
proof -
  obtain pn dn pe de where idx: "idx = (pn, dn, pe, de)" by (cases idx) auto
  show ?thesis
    unfolding idx edge_reconciliation_def prod.case
    by (rule paired_concat_map) (simp split: prod.splits option.splits)
qed

lemma entry_getitem: "entry x key = Some i \<Longrightarrow> py_getitem x key = Inr i"
  by (cases x) simp_all

lemma by_id_index_db:
  "by_id env (\<lambda>x. entry x key) xs = Some kvs \<Longrightarrow> index_db env key xs acc = Inr (dict_update acc kvs)"
proof (induction xs arbitrary: acc kvs)
  case Nil
  then show ?case by simp
next
  case (Cons x xs)
  from Cons.prems obtain i rest where i: "entry x key = Some i"
      and rest: "by_id env (\<lambda>x. entry x key) xs = Some rest"
      and kvs: "kvs = (py_str env i, x) # rest"
    by (auto split: option.splits)
  from Cons.IH[OF rest] show ?case
    by (simp add: entry_getitem[OF i] pbind_def kvs)
qed

lemma by_id_index_new:
  "by_id env (\<lambda>x. field_value x key) xs = Some kvs \<Longrightarrow> index_new env key xs acc = Inr (dict_update acc kvs)"
proof (induction xs arbitrary: acc kvs)
  case Nil
  then show ?case by simp
next
  case (Cons x xs)
  from Cons.prems obtain i rest where i: "field_value x key = Some i"
      and rest: "by_id env (\<lambda>x. field_value x key) xs = Some rest"
      and kvs: "kvs = (py_str env i, x) # rest"
    by (auto split: option.splits)
  from Cons.IH[OF rest] show ?case
    by (simp add: get_field_value i pbind_def kvs)
qed

lemma stored_list_getitem: "stored_list g f = Some xs \<Longrightarrow> py_getitem g f = Inr (PList xs)"
  by (cases g) (auto split: option.splits pyval.splits)

lemma persisted_index_db:
  assumes "persisted env g coll key = Some idx"
  shows "\<exists>xs. py_getitem g coll = Inr (PList xs) \<and> index_db env key xs [] = Inr idx"
proof -
  from assms obtain xs kvs where "stored_list g coll = Some xs"
      and "by_id env (\<lambda>x. entry x key) xs = Some kvs" and "idx = dict_update [] kvs"
    by (auto simp: persisted_def split: option.splits)
  with stored_list_getitem by_id_index_db show ?thesis by blast
qed

lemma desired_index_new:
  "desired env key xs = Some idx \<Longrightarrow> index_new env key xs [] = Inr idx"
  by (auto simp: desired_def dest: by_id_index_new)

lemma indexes_build:
  assumes "indexes env g nodes edges = Some idx"
  shows "build_indexes env g nodes edges = Inr idx"
proof -
  from assms obtain pn dn pe de where idx: "idx = (pn, dn, pe, de)"
      and p: "persisted env g ''nodes'' ''node_id'' = Some pn" "desired env ''node_id'' nodes = Some dn"
        "persisted env g ''edges'' ''edge_id'' = Some pe" "desired env ''edge_id'' edges = Some de"
    by (auto simp: indexes_def split: option.splits)
  from persisted_index_db[OF p(1)] obtain ns where ns: "py_getitem g ''nodes'' = Inr (PList ns)"
      "index_db env ''node_id'' ns [] = Inr pn" by blast
  from persisted_index_db[OF p(3)] obtain es where es: "py_getitem g ''edges'' = Inr (PList es)"
      "index_db env ''edge_id'' es [] = Inr pe" by blast
  show ?thesis
    by (simp add: build_indexes_def pbind_def ns es desired_index_new[OF p(2)]
        desired_index_new[OF p(4)] idx)
qed

subsection \<open>The order of the calls\<close>

text \<open>
  Claim C2, as the code has it. The calls one \<^verbatim>\<open>update_graph\<close> records are those of the six
  phases of the specification, in this order: the deletions of the persisted nodes that are
  not desired, the creations of the desired nodes that are not persisted, the updates of the
  nodes on both sides that are not equal, the deletions of the persisted edges that are not
  desired, the creations of the desired edges that are not persisted, and last the
  reconciliation of the edges on both sides, where an edge with a changed endpoint is deleted
  and at once created again under the same id and an edge whose description alone changed is
  updated. A run that returns has recorded exactly these calls, and a run that a raising step
  cuts short has recorded the first of them; nothing is recorded when the read of the
  persisted state or the indexing raises. Each of the first five phases holds calls of one
  kind; the last is made of description updates and of deletions followed at once by the
  creation under the same id. The two states by id, as the source builds them, are those of
  the specification whenever these exist.
\<close>

theorem update_graph_phases:
  assumes ug: "update_graph env version nodes edges s = (r, s')"
  shows "(case graph_by_version_get env (Some version) s of
            (Inl e, s1) \<Rightarrow> new_calls s s' = []
          | (Inr db_graph, s1) \<Rightarrow>
              (case build_indexes env db_graph nodes edges of
                 Inl e \<Rightarrow> new_calls s s' = []
               | Inr idx \<Rightarrow>
                   prefix (new_calls s s') (plan env version idx)
                   \<and> (r = Inr () \<longrightarrow> new_calls s s' = plan env version idx)))
       \<and> plan env version idx =
            node_deletions version idx @ node_creations env version idx
            @ node_updates env version idx @ edge_deletions version idx
            @ edge_creations env version idx @ edge_reconciliation env version idx
       \<and> list_all (\<lambda>c. phase c = 0) (node_deletions version idx)
       \<and> list_all (\<lambda>c. phase c = 1) (node_creations env version idx)
       \<and> list_all (\<lambda>c. phase c = 2) (node_updates env version idx)
       \<and> list_all (\<lambda>c. phase c = 3) (edge_deletions version idx)
       \<and> list_all (\<lambda>c. phase c = 4) (edge_creations env version idx)
       \<and> paired (edge_reconciliation env version idx)
       \<and> (indexes env db_graph nodes edges = Some idx \<longrightarrow>
            build_indexes env db_graph nodes edges = Inr idx)"
proof -
  obtain g s1 where g: "graph_by_version_get env (Some version) s = (g, s1)"
    by (cases "graph_by_version_get env (Some version) s")
  have "case g of
            Inl e \<Rightarrow> new_calls s s' = []
          | Inr db_graph \<Rightarrow>
              (case build_indexes env db_graph nodes edges of
                 Inl e \<Rightarrow> new_calls s s' = []
               | Inr idx \<Rightarrow>
                   prefix (new_calls s s') (plan env version idx)
                   \<and> (r = Inr () \<longrightarrow> new_calls s s' = plan env version idx))"
  proof (cases g)
    case (Inl e)
    with update_graph_no_indexes[OF ug g] show ?thesis by simp
  next
    case (Inr db_graph)
    show ?thesis
    proof (cases "build_indexes env db_graph nodes edges")
      case (Inl e)
      with update_graph_no_indexes[OF ug g] Inr show ?thesis by simp
    next
      case i: (Inr i)
      from update_graph_plan[OF g[unfolded Inr] i ug] Inr i show ?thesis by simp
    qed
  qed
  then have first: "case graph_by_version_get env (Some version) s of
            (Inl e, s1) \<Rightarrow> new_calls s s' = []
          | (Inr db_graph, s1) \<Rightarrow>
              (case build_indexes env db_graph nodes edges of
                 Inl e \<Rightarrow> new_calls s s' = []
               | Inr idx \<Rightarrow>
                   prefix (new_calls s s') (plan env version idx)
                   \<and> (r = Inr () \<longrightarrow> new_calls s s' = plan env version idx))"
    by (simp add: g split: sum.splits)
  show ?thesis
    by (intro conjI impI first plan_phases plan_paired indexes_build) (simp_all add: plan_def)
qed

lemma old_new_run:
  "fst (update_graph (demo_env never [old_board]) ''v1'' new_nodes new_edges (fresh None None)) = Inr ()"
  "calls (snd (update_graph (demo_env never [old_board]) ''v1'' new_nodes new_edges (fresh None None)))
     = old_new_calls"
  by (simp_all add: update_graph_def bind_def graph_by_version_get_demo lift_py_def build_indexes_def
      pbind_def old_board_def new_nodes_def new_edges_def old_new_calls_def carol_doc_def
      alice_moved_def board_doc_def edge_dict_def edge_dto_def alice_doc_def bob_dto_def
      ret_def raise_def resolve_version_def sync_indexes_def
      delete_nodes_def create_nodes_def update_nodes_def delete_edges_def create_edges_def
      update_edges_def dict_keys_def edge_fields_def node_fields_def need_update_def demo_writes
      wrote_def fresh_def ne_basic_def Let_def)

lemma old_new_indexes:
  "indexes (demo_env never d) old_board new_nodes new_edges = Some old_new_indexes"
  by (simp add: indexes_def persisted_def desired_def old_board_def new_nodes_def new_edges_def
      old_new_indexes_def carol_doc_def alice_moved_def board_doc_def edge_dict_def edge_dto_def
      alice_doc_def bob_dto_def)

theorem update_graph_phases_witness:
  "graph_by_version_get (demo_env never [old_board]) (Some ''v1'') (fresh None None)
     = (Inr old_board,
        (fresh None None)\<lparr>trace := [(OpenTx ''investigation_board'' READ, True),
          (TxQuery 0 ''graph-by-version-get'', True), (TxDocs 0, True), (TxClose 0, True)]\<rparr>)
   \<and> indexes (demo_env never [old_board]) old_board new_nodes new_edges = Some old_new_indexes
   \<and> build_indexes (demo_env never [old_board]) old_board new_nodes new_edges = Inr old_new_indexes
   \<and> fst (update_graph (demo_env never [old_board]) ''v1'' new_nodes new_edges (fresh None None))
        = Inr ()
   \<and> calls (snd (update_graph (demo_env never [old_board]) ''v1'' new_nodes new_edges
        (fresh None None))) = old_new_calls
   \<and> old_new_calls = plan (demo_env never [old_board]) ''v1'' old_new_indexes
   \<and> paired (edge_reconciliation (demo_env never [old_board]) ''v1'' old_new_indexes)"
proof -
  let ?E = "demo_env never [old_board]"
  let ?X = "update_graph ?E ''v1'' new_nodes new_edges (fresh None None)"
  have g: "graph_by_version_get ?E (Some ''v1'') (fresh None None)
     = (Inr old_board,
        (fresh None None)\<lparr>trace := [(OpenTx ''investigation_board'' READ, True),
          (TxQuery 0 ''graph-by-version-get'', True), (TxDocs 0, True), (TxClose 0, True)]\<rparr>)"
    by (simp add: graph_by_version_get_demo fresh_def)
  have "calls (fresh None None) = []" by (simp add: fresh_def)
  then have n: "new_calls (fresh None None) (snd ?X) = old_new_calls"
    by (simp add: new_calls_def old_new_run)
  note t = update_graph_phases[where env = ?E and version = "''v1''" and nodes = new_nodes
      and edges = new_edges and s = "fresh None None" and idx = old_new_indexes
      and db_graph = old_board, OF prod.collapse[symmetric]]
  note t9 = t[THEN conjunct2, THEN conjunct2, THEN conjunct2, THEN conjunct2, THEN conjunct2,
      THEN conjunct2, THEN conjunct2, THEN conjunct2]
  note t8 = t[THEN conjunct2, THEN conjunct2, THEN conjunct2, THEN conjunct2, THEN conjunct2,
      THEN conjunct2, THEN conjunct2, THEN conjunct1]
  from t9 old_new_indexes[of "[old_board]"]
  have b: "build_indexes ?E old_board new_nodes new_edges = Inr old_new_indexes" by simp
  from t[THEN conjunct1] have p: "old_new_calls = plan ?E ''v1'' old_new_indexes"
    by (simp add: g b n old_new_run)
  note r = t8
  from g old_new_indexes[of "[old_board]"] b old_new_run p r show ?thesis by simp
qed

lemma demo_run_calls:
  "calls (snd (update_graph
      (demo_env never [board_doc [] [edge_dict (PInt 1) (PInt 1) (PInt 2) PNone]]) ''v1'' []
      [edge_dict (PInt 1) (PInt 1) (PInt 3) PNone, edge_dict (PInt 2) (PInt 1) (PInt 2) PNone]
      (fresh None None)))
     = [EdgeCreate (PStr ''2'') (PStr ''1'') (PStr ''2'') PNone (Some ''v1''),
        EdgeDelete (PStr ''1'') (Some ''v1''),
        EdgeCreate (PStr ''1'') (PStr ''1'') (PStr ''3'') PNone (Some ''v1'')]"
  by (simp add: update_graph_def bind_def graph_by_version_get_demo lift_py_def build_indexes_def
      pbind_def board_doc_def edge_dict_def ret_def raise_def resolve_version_def sync_indexes_def
      delete_nodes_def create_nodes_def update_nodes_def delete_edges_def create_edges_def
      update_edges_def dict_keys_def edge_fields_def demo_writes wrote_def fresh_def
      ne_basic_def Let_def)

text \<open>
  Claim C2 as stated fails: with one persisted edge whose endpoint changes and one new edge,
  the deletion of the changed edge comes after the creation of the new one, so a call of the
  phase "edge deletions" follows a call of the phase "edge creations".
\<close>

theorem edge_recreation_after_creation:
  "calls (snd (update_graph
      (demo_env never [board_doc [] [edge_dict (PInt 1) (PInt 1) (PInt 2) PNone]]) ''v1'' []
      [edge_dict (PInt 1) (PInt 1) (PInt 3) PNone, edge_dict (PInt 2) (PInt 1) (PInt 2) PNone]
      (fresh None None)))
     = [EdgeCreate (PStr ''2'') (PStr ''1'') (PStr ''2'') PNone (Some ''v1''),
        EdgeDelete (PStr ''1'') (Some ''v1''),
        EdgeCreate (PStr ''1'') (PStr ''1'') (PStr ''3'') PNone (Some ''v1'')]
   \<and> \<not> phase_ordered
        [EdgeCreate (PStr ''2'') (PStr ''1'') (PStr ''2'') PNone (Some ''v1''),
         EdgeDelete (PStr ''1'') (Some ''v1''),
         EdgeCreate (PStr ''1'') (PStr ''1'') (PStr ''3'') PNone (Some ''v1'')]"
  using demo_run_calls by (simp add: phase_ordered_def)

subsection \<open>Idempotence of the synchronisation\<close>

lemma dict_set_keys: "fst ` set (dict_set k v d) = insert k (fst ` set d)"
  by (induction d) auto

lemma dict_set_distinct: "distinct (map fst d) \<Longrightarrow> distinct (map fst (dict_set k v d))"
  by (induction d) (auto simp: dict_set_keys)

lemma index_db_distinct:
  "distinct (map fst acc) \<Longrightarrow> index_db env key xs acc = Inr r \<Longrightarrow> distinct (map fst r)"
proof (induction xs arbitrary: acc)
  case Nil
  then show ?case by simp
next
  case (Cons n ns)
  from Cons.prems(2) obtain v where "index_db env key ns (dict_set (py_str env v) n acc) = Inr r"
    by (auto simp: pbind_def split: sum.splits)
  with Cons.IH[OF dict_set_distinct[OF Cons.prems(1)]] show ?case by blast
qed

lemma index_new_distinct:
  "distinct (map fst acc) \<Longrightarrow> index_new env key xs acc = Inr r \<Longrightarrow> distinct (map fst r)"
proof (induction xs arbitrary: acc)
  case Nil
  then show ?case by simp
next
  case (Cons n ns)
  from Cons.prems(2) obtain v where "index_new env key ns (dict_set (py_str env v) n acc) = Inr r"
    by (auto simp: pbind_def split: sum.splits)
  with Cons.IH[OF dict_set_distinct[OF Cons.prems(1)]] show ?case by blast
qed

lemma build_indexes_distinct:
  assumes "build_indexes env g nodes edges = Inr (dbn, newn, dbe, newe)"
  shows "distinct (map fst dbn) \<and> distinct (map fst newn) \<and> distinct (map fst dbe) \<and> distinct (map fst newe)"
  using assms
  by (auto simp: build_indexes_def pbind_def split: sum.splits
      dest: index_db_distinct[rotated] index_new_distinct[rotated])

lemma for_each_skip:
  "(\<And>x. x \<in> set xs \<Longrightarrow> body x = ret ()) \<Longrightarrow> for_each xs body = ret ()"
  by (induction xs) simp_all

lemma item_lookup: "distinct (map fst d) \<Longrightarrow> (k, v) \<in> set d \<Longrightarrow> map_of d k = Some v"
  by simp

lemma key_lookup: "k \<in> set (dict_keys d) \<Longrightarrow> \<exists>v. map_of d k = Some v"
  by (induction d) (auto simp: dict_keys_def)

lemma delete_nodes_skip:
  assumes "\<And>k. k \<in> set (dict_keys dbn) \<Longrightarrow> \<not> node_differs env dbn newn k"
  shows "delete_nodes env rv dbn newn = ret ()"
  unfolding delete_nodes_def
proof (rule for_each_skip)
  fix k assume k: "k \<in> set (dict_keys dbn)"
  from key_lookup[OF k] assms[OF k] obtain y where "map_of newn k = Some y"
    by (auto simp: node_differs_def split: option.splits)
  then show "(if map_of newn k = None then node_delete env (PStr k) (Some rv) else ret ()) = ret ()"
    by simp
qed

lemma create_nodes_skip:
  assumes "\<And>k. k \<in> set (dict_keys newn) \<Longrightarrow> \<not> node_differs env dbn newn k"
  shows "create_nodes env rv dbn newn = ret ()"
  unfolding create_nodes_def
proof (rule for_each_skip)
  fix item assume i: "item \<in> set newn"
  obtain k n where item: "item = (k, n)" by (cases item)
  with i have k: "k \<in> set (dict_keys newn)" by (force simp: dict_keys_def)
  from key_lookup[OF k] assms[OF k] obtain y where "map_of dbn k = Some y"
    by (auto simp: node_differs_def split: option.splits)
  then show "(case item of (node_id_str, node_obj) \<Rightarrow>
       if map_of dbn node_id_str = None
       then bind (lift_py (node_fields env node_obj)) (\<lambda>new.
              case new of (name, pos_x, pos_y, picture_path, description) \<Rightarrow>
              node_create env (PStr node_id_str) name pos_x pos_y picture_path description (Some rv))
       else ret ()) = ret ()"
    by (simp add: item)
qed

lemma update_nodes_skip:
  assumes "\<And>k. k \<in> set (dict_keys dbn) \<Longrightarrow> \<not> node_differs env dbn newn k"
      and d: "distinct (map fst dbn)"
  shows "update_nodes env rv dbn newn = ret ()"
  unfolding update_nodes_def
proof (rule for_each_skip)
  fix item assume i: "item \<in> set dbn"
  obtain k db_node where item: "item = (k, db_node)" by (cases item)
  with i have k: "k \<in> set (dict_keys dbn)" by (force simp: dict_keys_def)
  from item_lookup[OF d] i item have l: "map_of dbn k = Some db_node" by simp
  show "(case item of (node_id_str, db_node) \<Rightarrow>
       (case map_of newn node_id_str of
          None \<Rightarrow> ret ()
        | Some node_obj \<Rightarrow>
            bind (lift_py (node_fields env node_obj)) (\<lambda>new.
            bind (lift_py (need_update env db_node new)) (\<lambda>changed.
              if changed
              then (case new of (new_name, new_pos_x, new_pos_y, new_picture, new_desc) \<Rightarrow>
                      node_update env (PStr node_id_str) new_name new_pos_x new_pos_y
                        new_picture new_desc (Some rv))
              else ret ())))) = ret ()"
  proof (cases "map_of newn k")
    case None
    then show ?thesis by (simp add: item)
  next
    case (Some n)
    with assms(1)[OF k] l have "same_node env db_node n" by (simp add: node_differs_def)
    then obtain new where "node_fields env n = Inr new" "need_update env db_node new = Inr False"
      by (auto simp: same_node_def pbind_def split: sum.splits)
    then show ?thesis by (simp add: item Some lift_py_def)
  qed
qed

lemma delete_edges_skip:
  assumes "\<And>k. k \<in> set (dict_keys dbe) \<Longrightarrow> \<not> edge_differs env dbe newe k"
  shows "delete_edges env rv dbe newe = ret ()"
  unfolding delete_edges_def
proof (rule for_each_skip)
  fix k assume k: "k \<in> set (dict_keys dbe)"
  from key_lookup[OF k] assms[OF k] obtain y where "map_of newe k = Some y"
    by (auto simp: edge_differs_def split: option.splits)
  then show "(if map_of newe k = None then edge_delete env (PStr k) (Some rv) else ret ()) = ret ()"
    by simp
qed

lemma create_edges_skip:
  assumes "\<And>k. k \<in> set (dict_keys newe) \<Longrightarrow> \<not> edge_differs env dbe newe k"
  shows "create_edges env rv dbe newe = ret ()"
  unfolding create_edges_def
proof (rule for_each_skip)
  fix item assume i: "item \<in> set newe"
  obtain k n where item: "item = (k, n)" by (cases item)
  with i have k: "k \<in> set (dict_keys newe)" by (force simp: dict_keys_def)
  from key_lookup[OF k] assms[OF k] obtain y where "map_of dbe k = Some y"
    by (auto simp: edge_differs_def split: option.splits)
  then show "(case item of (edge_id_str, edge_obj) \<Rightarrow>
       if map_of dbe edge_id_str = None
       then bind (lift_py (get_field edge_obj ''node1'')) (\<lambda>n1.
            bind (lift_py (get_field edge_obj ''node2'')) (\<lambda>n2.
            bind (lift_py (get_field edge_obj ''description'')) (\<lambda>description.
              edge_create env (PStr edge_id_str) (PStr (py_str env n1)) (PStr (py_str env n2))
                description (Some rv))))
       else ret ()) = ret ()"
    by (simp add: item)
qed

lemma update_edges_skip:
  assumes "\<And>k. k \<in> set (dict_keys dbe) \<Longrightarrow> \<not> edge_differs env dbe newe k"
      and d: "distinct (map fst dbe)"
  shows "update_edges env rv dbe newe = ret ()"
  unfolding update_edges_def
proof (rule for_each_skip)
  fix item assume i: "item \<in> set dbe"
  obtain k db_edge where item: "item = (k, db_edge)" by (cases item)
  with i have k: "k \<in> set (dict_keys dbe)" by (force simp: dict_keys_def)
  from item_lookup[OF d] i item have l: "map_of dbe k = Some db_edge" by simp
  show "(case item of (edge_id_str, db_edge) \<Rightarrow>
       (case map_of newe edge_id_str of
          None \<Rightarrow> ret ()
        | Some edge_obj \<Rightarrow>
            bind (lift_py (edge_fields env db_edge edge_obj)) (\<lambda>fields.
              case fields of (db_node1, db_node2, db_desc, new_node1, new_node2, new_desc) \<Rightarrow>
              (let endpoints_changed = (db_node1 \<noteq> new_node1 \<or> db_node2 \<noteq> new_node2);
                   desc_changed = py_ne env db_desc new_desc
               in if endpoints_changed
                  then bind (edge_delete env (PStr edge_id_str) (Some rv)) (\<lambda>_.
                         edge_create env (PStr edge_id_str) (PStr new_node1) (PStr new_node2)
                           new_desc (Some rv))
                  else if desc_changed
                  then edge_update env (PStr edge_id_str) new_desc (Some rv)
                  else ret ())))) = ret ()"
  proof (cases "map_of newe k")
    case None
    then show ?thesis by (simp add: item)
  next
    case (Some e)
    with assms(1)[OF k] l have "same_edge env db_edge e" by (simp add: edge_differs_def)
    then show ?thesis
      by (auto simp: item Some same_edge_def lift_py_def Let_def split: sum.splits)
  qed
qed

lemma sync_indexes_same:
  assumes "build_indexes env g nodes edges = Inr idx" and "same_graph env g nodes edges"
  shows "sync_indexes env rv idx = ret ()"
proof -
  obtain dbn newn dbe newe where idx: "idx = (dbn, newn, dbe, newe)" by (cases idx) auto
  from build_indexes_distinct[OF assms(1)[unfolded idx]]
  have dn: "distinct (map fst dbn)" and de: "distinct (map fst dbe)" by simp_all
  from assms have n: "\<And>k. k \<in> set (dict_keys dbn) \<union> set (dict_keys newn) \<Longrightarrow> \<not> node_differs env dbn newn k"
    and e: "\<And>k. k \<in> set (dict_keys dbe) \<union> set (dict_keys newe) \<Longrightarrow> \<not> edge_differs env dbe newe k"
    by (auto simp: same_graph_def idx list_all_iff)
  show ?thesis
    unfolding sync_indexes_def idx prod.case
    by (simp add: delete_nodes_skip create_nodes_skip update_nodes_skip delete_edges_skip
        create_edges_skip update_edges_skip n e dn de)
qed

lemma emits_bind_all:
  assumes "emits m (\<lambda>u. list_all D) (list_all D)"
      and "\<And>x. emits (f x) (\<lambda>u. list_all D) (list_all D)"
  shows "emits (bind m f) (\<lambda>u. list_all D) (list_all D)"
  by (rule emits_weaken[OF emits_bind[OF assms]]) auto

lemma emits_for_each_all:
  assumes "\<And>x. x \<in> set xs \<Longrightarrow> emits (body x) (\<lambda>u. list_all D) (list_all D)"
  shows "emits (for_each xs body) (\<lambda>u. list_all D) (list_all D)"
  by (rule emits_for_each[OF assms]) simp_all

lemma differs_delete_nodes:
  "emits (delete_nodes env rv dbn newn) (\<lambda>u. list_all (call_differs env (dbn, newn, dbe, newe)))
     (list_all (call_differs env (dbn, newn, dbe, newe)))"
  unfolding delete_nodes_def
proof (rule emits_for_each_all)
  fix k assume k: "k \<in> set (dict_keys dbn)"
  from key_lookup[OF k] obtain d where d: "map_of dbn k = Some d" by blast
  show "emits (if map_of newn k = None then node_delete env (PStr k) (Some rv) else ret ())
     (\<lambda>u. list_all (call_differs env (dbn, newn, dbe, newe)))
     (list_all (call_differs env (dbn, newn, dbe, newe)))"
  proof (cases "map_of newn k")
    case None
    with d show ?thesis
      by (auto intro!: emits_weaken[OF emits_node_delete] simp: node_differs_def)
  next
    case (Some n)
    then show ?thesis by (simp add: emits_ret)
  qed
qed

lemma differs_create_nodes:
  "emits (create_nodes env rv dbn newn) (\<lambda>u. list_all (call_differs env (dbn, newn, dbe, newe)))
     (list_all (call_differs env (dbn, newn, dbe, newe)))"
  unfolding create_nodes_def
proof (rule emits_for_each_all)
  fix item assume i: "item \<in> set newn"
  obtain k n where item: "item = (k, n)" by (cases item)
  with i have "k \<in> set (dict_keys newn)" by (force simp: dict_keys_def)
  from key_lookup[OF this] obtain n' where n': "map_of newn k = Some n'" by blast
  show "emits (case item of (node_id_str, node_obj) \<Rightarrow>
       if map_of dbn node_id_str = None
       then bind (lift_py (node_fields env node_obj)) (\<lambda>new.
              case new of (name, pos_x, pos_y, picture_path, description) \<Rightarrow>
              node_create env (PStr node_id_str) name pos_x pos_y picture_path description (Some rv))
       else ret ())
     (\<lambda>u. list_all (call_differs env (dbn, newn, dbe, newe)))
     (list_all (call_differs env (dbn, newn, dbe, newe)))"
  proof (cases "map_of dbn k")
    case None
    with n' show ?thesis
      by (auto simp: item node_differs_def split: prod.splits
          intro!: emits_bind_lift emits_weaken[OF emits_node_create])
  next
    case (Some d)
    then show ?thesis by (simp add: item emits_ret)
  qed
qed

lemma differs_update_nodes:
  assumes d: "distinct (map fst dbn)"
  shows "emits (update_nodes env rv dbn newn) (\<lambda>u. list_all (call_differs env (dbn, newn, dbe, newe)))
     (list_all (call_differs env (dbn, newn, dbe, newe)))"
  unfolding update_nodes_def
proof (rule emits_for_each_all)
  fix item assume i: "item \<in> set dbn"
  obtain k db_node where item: "item = (k, db_node)" by (cases item)
  from item_lookup[OF d] i item have l: "map_of dbn k = Some db_node" by simp
  show "emits (case item of (node_id_str, db_node) \<Rightarrow>
       (case map_of newn node_id_str of
          None \<Rightarrow> ret ()
        | Some node_obj \<Rightarrow>
            bind (lift_py (node_fields env node_obj)) (\<lambda>new.
            bind (lift_py (need_update env db_node new)) (\<lambda>changed.
              if changed
              then (case new of (new_name, new_pos_x, new_pos_y, new_picture, new_desc) \<Rightarrow>
                      node_update env (PStr node_id_str) new_name new_pos_x new_pos_y
                        new_picture new_desc (Some rv))
              else ret ()))))
     (\<lambda>u. list_all (call_differs env (dbn, newn, dbe, newe)))
     (list_all (call_differs env (dbn, newn, dbe, newe)))"
  proof (cases "map_of newn k")
    case None
    then show ?thesis by (simp add: item emits_ret)
  next
    case (Some n)
    show ?thesis
    proof (cases "node_fields env n")
      case (Inl e)
      then show ?thesis by (simp add: item Some lift_py_def emits_raise)
    next
      case (Inr new)
      show ?thesis
      proof (cases "need_update env db_node new")
        case (Inl e)
        then show ?thesis by (simp add: item Some Inr lift_py_def emits_raise)
      next
        case changed: (Inr changed)
        show ?thesis
        proof (cases changed)
          case True
          with changed Inr have "\<not> same_node env db_node n"
            by (simp add: same_node_def pbind_def)
          with l Some have "node_differs env dbn newn k" by (simp add: node_differs_def)
          with True changed Inr show ?thesis
            by (auto simp: item Some lift_py_def split: prod.splits
                intro!: emits_weaken[OF emits_node_update])
        next
          case False
          with changed Inr show ?thesis by (simp add: item Some lift_py_def emits_ret)
        qed
      qed
    qed
  qed
qed

lemma differs_delete_edges:
  "emits (delete_edges env rv dbe newe) (\<lambda>u. list_all (call_differs env (dbn, newn, dbe, newe)))
     (list_all (call_differs env (dbn, newn, dbe, newe)))"
  unfolding delete_edges_def
proof (rule emits_for_each_all)
  fix k assume k: "k \<in> set (dict_keys dbe)"
  from key_lookup[OF k] obtain d where d: "map_of dbe k = Some d" by blast
  show "emits (if map_of newe k = None then edge_delete env (PStr k) (Some rv) else ret ())
     (\<lambda>u. list_all (call_differs env (dbn, newn, dbe, newe)))
     (list_all (call_differs env (dbn, newn, dbe, newe)))"
  proof (cases "map_of newe k")
    case None
    with d show ?thesis
      by (auto intro!: emits_weaken[OF emits_edge_delete] simp: edge_differs_def)
  next
    case (Some n)
    then show ?thesis by (simp add: emits_ret)
  qed
qed

lemma differs_create_edges:
  "emits (create_edges env rv dbe newe) (\<lambda>u. list_all (call_differs env (dbn, newn, dbe, newe)))
     (list_all (call_differs env (dbn, newn, dbe, newe)))"
  unfolding create_edges_def
proof (rule emits_for_each_all)
  fix item assume i: "item \<in> set newe"
  obtain k n where item: "item = (k, n)" by (cases item)
  with i have "k \<in> set (dict_keys newe)" by (force simp: dict_keys_def)
  from key_lookup[OF this] obtain n' where n': "map_of newe k = Some n'" by blast
  show "emits (case item of (edge_id_str, edge_obj) \<Rightarrow>
       if map_of dbe edge_id_str = None
       then bind (lift_py (get_field edge_obj ''node1'')) (\<lambda>n1.
            bind (lift_py (get_field edge_obj ''node2'')) (\<lambda>n2.
            bind (lift_py (get_field edge_obj ''description'')) (\<lambda>description.
              edge_create env (PStr edge_id_str) (PStr (py_str env n1)) (PStr (py_str env n2))
                description (Some rv))))
       else ret ())
     (\<lambda>u. list_all (call_differs env (dbn, newn, dbe, newe)))
     (list_all (call_differs env (dbn, newn, dbe, newe)))"
  proof (cases "map_of dbe k")
    case None
    with n' show ?thesis
      by (auto simp: item edge_differs_def
          intro!: emits_bind_lift emits_weaken[OF emits_edge_create])
  next
    case (Some d)
    then show ?thesis by (simp add: item emits_ret)
  qed
qed

lemma differs_update_edges:
  assumes d: "distinct (map fst dbe)"
  shows "emits (update_edges env rv dbe newe) (\<lambda>u. list_all (call_differs env (dbn, newn, dbe, newe)))
     (list_all (call_differs env (dbn, newn, dbe, newe)))"
  unfolding update_edges_def
proof (rule emits_for_each_all)
  fix item assume i: "item \<in> set dbe"
  obtain k db_edge where item: "item = (k, db_edge)" by (cases item)
  from item_lookup[OF d] i item have l: "map_of dbe k = Some db_edge" by simp
  show "emits (case item of (edge_id_str, db_edge) \<Rightarrow>
       (case map_of newe edge_id_str of
          None \<Rightarrow> ret ()
        | Some edge_obj \<Rightarrow>
            bind (lift_py (edge_fields env db_edge edge_obj)) (\<lambda>fields.
              case fields of (db_node1, db_node2, db_desc, new_node1, new_node2, new_desc) \<Rightarrow>
              (let endpoints_changed = (db_node1 \<noteq> new_node1 \<or> db_node2 \<noteq> new_node2);
                   desc_changed = py_ne env db_desc new_desc
               in if endpoints_changed
                  then bind (edge_delete env (PStr edge_id_str) (Some rv)) (\<lambda>_.
                         edge_create env (PStr edge_id_str) (PStr new_node1) (PStr new_node2)
                           new_desc (Some rv))
                  else if desc_changed
                  then edge_update env (PStr edge_id_str) new_desc (Some rv)
                  else ret ()))))
     (\<lambda>u. list_all (call_differs env (dbn, newn, dbe, newe)))
     (list_all (call_differs env (dbn, newn, dbe, newe)))"
  proof (cases "map_of newe k")
    case None
    then show ?thesis by (simp add: item emits_ret)
  next
    case (Some e)
    show ?thesis
    proof (cases "edge_fields env db_edge e")
      case (Inl x)
      then show ?thesis by (simp add: item Some lift_py_def emits_raise)
    next
      case (Inr fields)
      obtain a b dd a' b' d' where f: "fields = (a, b, dd, a', b', d')" by (cases fields) auto
      show ?thesis
      proof (cases "same_edge env db_edge e")
        case True
        with Inr f show ?thesis
          by (simp add: item Some lift_py_def same_edge_def emits_ret)
      next
        case False
        with l Some have df: "edge_differs env dbe newe k" by (simp add: edge_differs_def)
        have dc: "emits (bind (edge_delete env (PStr k) (Some rv)) (\<lambda>_.
                         edge_create env (PStr k) (PStr a') (PStr b') d' (Some rv)))
            (\<lambda>u. list_all (call_differs env (dbn, newn, dbe, newe)))
            (list_all (call_differs env (dbn, newn, dbe, newe)))"
          by (rule emits_weaken[OF emits_bind[OF emits_edge_delete emits_edge_create]])
             (use df in auto)
        have up: "emits (edge_update env (PStr k) d' (Some rv))
            (\<lambda>u. list_all (call_differs env (dbn, newn, dbe, newe)))
            (list_all (call_differs env (dbn, newn, dbe, newe)))"
          by (rule emits_weaken[OF emits_edge_update]) (use df in auto)
        from Inr f dc up show ?thesis
          by (simp add: item Some lift_py_def Let_def emits_ret)
      qed
    qed
  qed
qed

lemma differs_sync_indexes:
  assumes "distinct (map fst dbn)" and "distinct (map fst dbe)"
  shows "emits (sync_indexes env rv (dbn, newn, dbe, newe))
     (\<lambda>u. list_all (call_differs env (dbn, newn, dbe, newe)))
     (list_all (call_differs env (dbn, newn, dbe, newe)))"
  unfolding sync_indexes_def prod.case
  by (intro emits_bind_all differs_delete_nodes differs_create_nodes differs_update_nodes
      differs_delete_edges differs_create_edges differs_update_edges assms)

lemma update_graph_differs:
  assumes g: "graph_by_version_get env (Some version) s = (Inr db_graph, s1)"
      and bi: "build_indexes env db_graph nodes edges = Inr idx"
      and ug: "update_graph env version nodes edges s = (r, s')"
  shows "list_all (call_differs env idx) (new_calls s s')"
proof -
  from emitsD[OF emits_graph_by_version_get g] have c1: "calls s1 = calls s" by simp
  obtain dbn newn dbe newe where idx: "idx = (dbn, newn, dbe, newe)" by (cases idx) auto
  from bi idx build_indexes_distinct have d: "distinct (map fst dbn)" "distinct (map fst dbe)"
    by blast+
  from ug have run: "sync_indexes env version idx s1 = (r, s')"
    by (simp add: update_graph_def bind_def g bi lift_py_def ret_def resolve_version_def)
  from emitsD[OF differs_sync_indexes[OF d] run[unfolded idx]] c1
  show ?thesis by (cases r) (auto simp: new_calls_def idx)
qed

lemma node_differs_iff: "node_differs env pn dn = differs (nodes_equal env) pn dn"
  by (rule ext) (simp add: node_differs_def differs_def same_node_iff split: option.splits)

lemma edge_differs_iff: "edge_differs env pe de = differs (edges_equal env) pe de"
  by (rule ext) (simp add: edge_differs_def differs_def same_edge_iff split: option.splits)

lemma call_differs_iff: "call_differs env idx c = justified env idx c"
proof -
  obtain pn dn pe de where idx: "idx = (pn, dn, pe, de)" by (cases idx) auto
  show ?thesis by (cases c) (simp_all add: idx node_differs_iff edge_differs_iff)
qed

lemma agree_not_differs:
  assumes "agree eq P D" and "k \<in> set (dict_keys P) \<union> set (dict_keys D)"
  shows "\<not> differs eq P D k"
proof -
  from assms have "k \<in> set (dict_keys P)" by (simp add: agree_def)
  with assms(1) show ?thesis
    by (auto simp: agree_def differs_def list_all_iff split: option.splits)
qed

lemma state_equal_same_graph:
  assumes "state_equal env g nodes edges"
  shows "same_graph env g nodes edges"
proof -
  from assms obtain pn dn pe de where i: "indexes env g nodes edges = Some (pn, dn, pe, de)"
      and a: "agree (nodes_equal env) pn dn" "agree (edges_equal env) pe de"
    by (auto simp: state_equal_def split: option.splits)
  from indexes_build[OF i] agree_not_differs[OF a(1)] agree_not_differs[OF a(2)]
  show ?thesis
    by (simp add: same_graph_def node_differs_iff edge_differs_iff list_all_iff)
qed

lemma update_graph_same:
  assumes g: "graph_by_version_get env (Some version) s = (Inr db_graph, s1)"
      and same: "same_graph env db_graph nodes edges"
  shows "update_graph env version nodes edges s = (Inr (), s1)" and "calls s1 = calls s"
proof -
  from emitsD[OF emits_graph_by_version_get g] show "calls s1 = calls s" by simp
  from same obtain i where i: "build_indexes env db_graph nodes edges = Inr i"
    by (auto simp: same_graph_def split: sum.splits)
  from sync_indexes_same[OF i same]
  show "update_graph env version nodes edges s = (Inr (), s1)"
    by (simp add: update_graph_def bind_def g i lift_py_def ret_def resolve_version_def)
qed

text \<open>
  Claim C1, for states that are equal under the comparison by value. When the persisted
  state that \<^verbatim>\<open>graph_by_version_get\<close> reads equals the desired state (the same ids on both
  sides and, under every id, name, picture path and description equal under \<^verbatim>\<open>!=\<close>, both
  positions equal as floats, both endpoints equal as strings), \<^verbatim>\<open>update_graph\<close> returns
  normally in the very state the read left: no client call is recorded and the engine sees
  nothing after the read. In every run, each recorded create, update or delete call names an
  id whose entity differs: one that is on one side only, or one whose two entities are not
  equal. The two states by id, as the source builds them, are those of the specification
  whenever these exist.
\<close>

theorem update_graph_idempotent:
  assumes g: "graph_by_version_get env (Some version) s = (Inr db_graph, s1)"
  shows "(state_equal env db_graph nodes edges \<longrightarrow>
            update_graph env version nodes edges s = (Inr (), s1) \<and> calls s1 = calls s)
       \<and> (build_indexes env db_graph nodes edges = Inr idx
            \<and> update_graph env version nodes edges s = (r, s') \<longrightarrow>
            list_all (justified env idx) (new_calls s s'))
       \<and> (indexes env db_graph nodes edges = Some idx \<longrightarrow>
            build_indexes env db_graph nodes edges = Inr idx)"
proof (intro conjI impI)
  assume same: "state_equal env db_graph nodes edges"
  from update_graph_same[OF g state_equal_same_graph[OF same]]
  show "update_graph env version nodes edges s = (Inr (), s1)" and "calls s1 = calls s"
    by simp_all
next
  assume a: "build_indexes env db_graph nodes edges = Inr idx
            \<and> update_graph env version nodes edges s = (r, s')"
  then have "list_all (call_differs env idx) (new_calls s s')"
    using update_graph_differs[OF g] by blast
  then show "list_all (justified env idx) (new_calls s s')"
    by (simp add: list_all_iff call_differs_iff)
next
  assume "indexes env db_graph nodes edges = Some idx"
  then show "build_indexes env db_graph nodes edges = Inr idx" by (rule indexes_build)
qed

lemma state_equal_demo:
  "state_equal (demo_env never d)
     (board_doc [alice_doc (PStr ''suspect'')] [edge_dict (PInt 3) (PInt 1) (PInt 2) (PStr ''knows'')])
     [alice_dto (PStr ''person'')] [edge_dto (PInt 3) (PInt 1) (PInt 2) (PStr ''knows'')]"
  by (simp add: state_equal_def indexes_def persisted_def desired_def agree_def dict_keys_def
      nodes_equal_def edges_equal_def equal_field_def equal_position_def equal_endpoint_def
      board_doc_def alice_doc_def alice_dto_def edge_dict_def edge_dto_def ne_basic_def)

theorem update_graph_idempotent_witness:
  "graph_by_version_get
       (demo_env never [board_doc [alice_doc (PStr ''suspect'')]
          [edge_dict (PInt 3) (PInt 1) (PInt 2) (PStr ''knows'')]]) (Some ''v1'') (fresh None None)
     = (Inr (board_doc [alice_doc (PStr ''suspect'')]
          [edge_dict (PInt 3) (PInt 1) (PInt 2) (PStr ''knows'')]),
        (fresh None None)\<lparr>trace := [(OpenTx ''investigation_board'' READ, True),
          (TxQuery 0 ''graph-by-version-get'', True), (TxDocs 0, True), (TxClose 0, True)]\<rparr>)
   \<and> state_equal
       (demo_env never [board_doc [alice_doc (PStr ''suspect'')]
          [edge_dict (PInt 3) (PInt 1) (PInt 2) (PStr ''knows'')]])
       (board_doc [alice_doc (PStr ''suspect'')]
          [edge_dict (PInt 3) (PInt 1) (PInt 2) (PStr ''knows'')])
       [alice_dto (PStr ''person'')] [edge_dto (PInt 3) (PInt 1) (PInt 2) (PStr ''knows'')]
   \<and> update_graph
       (demo_env never [board_doc [alice_doc (PStr ''suspect'')]
          [edge_dict (PInt 3) (PInt 1) (PInt 2) (PStr ''knows'')]]) ''v1''
       [alice_dto (PStr ''person'')] [edge_dto (PInt 3) (PInt 1) (PInt 2) (PStr ''knows'')]
       (fresh None None)
     = (Inr (), (fresh None None)\<lparr>trace := [(OpenTx ''investigation_board'' READ, True),
          (TxQuery 0 ''graph-by-version-get'', True), (TxDocs 0, True), (TxClose 0, True)]\<rparr>)
   \<and> indexes (demo_env never [old_board]) old_board new_nodes new_edges = Some old_new_indexes
   \<and> build_indexes (demo_env never [old_board]) old_board new_nodes new_edges = Inr old_new_indexes
   \<and> list_all (justified (demo_env never [old_board]) old_new_indexes) old_new_calls"
proof -
  let ?E = "demo_env never [board_doc [alice_doc (PStr ''suspect'')]
          [edge_dict (PInt 3) (PInt 1) (PInt 2) (PStr ''knows'')]]"
  let ?s1 = "(fresh None None)\<lparr>trace := [(OpenTx ''investigation_board'' READ, True),
          (TxQuery 0 ''graph-by-version-get'', True), (TxDocs 0, True), (TxClose 0, True)]\<rparr>"
  have g: "graph_by_version_get ?E (Some ''v1'') (fresh None None)
     = (Inr (board_doc [alice_doc (PStr ''suspect'')]
          [edge_dict (PInt 3) (PInt 1) (PInt 2) (PStr ''knows'')]), ?s1)"
    by (simp add: graph_by_version_get_demo fresh_def)
  let ?F = "demo_env never [old_board]"
  let ?X = "update_graph ?F ''v1'' new_nodes new_edges (fresh None None)"
  have h: "graph_by_version_get ?F (Some ''v1'') (fresh None None) = (Inr old_board, ?s1)"
    by (simp add: graph_by_version_get_demo fresh_def)
  have x: "?X = (fst ?X, snd ?X)" by simp
  have "calls (fresh None None) = []" by (simp add: fresh_def)
  then have n: "new_calls (fresh None None) (snd ?X) = old_new_calls"
    by (simp add: new_calls_def old_new_run)
  from update_graph_idempotent[OF g, of "[alice_dto (PStr ''person'')]"
      "[edge_dto (PInt 3) (PInt 1) (PInt 2) (PStr ''knows'')]"] state_equal_demo
  have a: "update_graph ?E ''v1'' [alice_dto (PStr ''person'')]
       [edge_dto (PInt 3) (PInt 1) (PInt 2) (PStr ''knows'')] (fresh None None) = (Inr (), ?s1)"
    by blast
  note t = update_graph_idempotent[OF h, of new_nodes new_edges old_new_indexes "fst ?X" "snd ?X"]
  from t old_new_indexes[of "[old_board]"]
  have b: "build_indexes ?F old_board new_nodes new_edges = Inr old_new_indexes" by simp
  from t b x have c: "list_all (justified ?F old_new_indexes) old_new_calls"
    by (simp add: n)
  from g state_equal_demo a old_new_indexes[of "[old_board]"] b c show ?thesis by simp
qed

lemma nan_run:
  "calls (snd (update_graph (demo_env never [board_doc [nan_doc] []]) ''v1'' [nan_doc] []
      (fresh None None)))
     = [NodeUpdate (PStr ''1'') (PStr ''Alice'') (PFloat NaN) (PFloat (Finite 20)) PNone PNone
          (Some ''v1'')]"
  by (simp add: update_graph_def bind_def graph_by_version_get_demo lift_py_def build_indexes_def
      pbind_def nan_doc_def board_doc_def
      ret_def raise_def resolve_version_def sync_indexes_def
      delete_nodes_def create_nodes_def update_nodes_def delete_edges_def create_edges_def
      update_edges_def dict_keys_def edge_fields_def node_fields_def need_update_def demo_writes
      wrote_def fresh_def ne_basic_def Let_def)

text \<open>
  Claim C1 as stated fails: when the persisted state holds one node whose x position is NaN
  and the desired state is that very node, \<^verbatim>\<open>update_graph\<close> records an update of the node,
  since NaN compares unequal to itself.
\<close>

theorem identical_nan_state_rewritten:
  "graph_by_version_get (demo_env never [board_doc [nan_doc] []]) (Some ''v1'') (fresh None None)
     = (Inr (board_doc [nan_doc] []),
        (fresh None None)\<lparr>trace := [(OpenTx ''investigation_board'' READ, True),
          (TxQuery 0 ''graph-by-version-get'', True), (TxDocs 0, True), (TxClose 0, True)]\<rparr>)
   \<and> calls (snd (update_graph (demo_env never [board_doc [nan_doc] []]) ''v1'' [nan_doc] []
      (fresh None None)))
     = [NodeUpdate (PStr ''1'') (PStr ''Alice'') (PFloat NaN) (PFloat (Finite 20)) PNone PNone
          (Some ''v1'')]"
  using nan_run by (simp add: graph_by_version_get_demo fresh_def)

subsection \<open>The node type\<close>

lemma map_of_filter_other:
  "f \<noteq> k0 \<Longrightarrow> map_of (filter (\<lambda>p. fst p \<noteq> k0) d) f = map_of d f"
  by (induction d) auto

lemma get_field_without:
  "f \<noteq> ''node_type'' \<Longrightarrow> get_field (without_node_type n) f = get_field n f"
  by (cases n) (simp_all add: map_of_filter_other)

lemma dict_get_without:
  "f \<noteq> ''node_type'' \<Longrightarrow> dict_get (without_node_type n) f = dict_get n f"
  by (cases n) (simp_all add: map_of_filter_other)

lemma node_fields_without: "node_fields env (without_node_type n) = node_fields env n"
  by (simp add: node_fields_def get_field_without)

lemma need_update_without: "need_update env (without_node_type d) = need_update env d"
  by (rule ext) (simp add: need_update_def dict_get_without cong: if_cong split: prod.splits)

lemma same_node_without:
  "same_node env (without_node_type d) (without_node_type n) = same_node env d n"
  by (simp add: same_node_def node_fields_without need_update_without)

lemma dict_set_apsnd:
  "dict_set k (g v) (map (apsnd g) acc) = map (apsnd g) (dict_set k v acc)"
  by (induction acc) auto

lemma index_new_without:
  assumes "key \<noteq> ''node_type''"
  shows "index_new env key (map without_node_type ns) (map (apsnd without_node_type) acc)
       = map_sum id (map (apsnd without_node_type)) (index_new env key ns acc)"
proof (induction ns arbitrary: acc)
  case Nil
  show ?case by simp
next
  case (Cons n ns)
  show ?case
  proof (cases "get_field n key")
    case (Inl e)
    then show ?thesis by (simp add: pbind_def get_field_without assms)
  next
    case (Inr v)
    then show ?thesis
      by (simp add: pbind_def get_field_without assms dict_set_apsnd Cons.IH)
  qed
qed

lemma build_indexes_without:
  "build_indexes env g (map without_node_type nodes) edges
     = map_sum id (\<lambda>idx. case idx of (dbn, newn, dbe, newe) \<Rightarrow>
                      (dbn, map (apsnd without_node_type) newn, dbe, newe))
         (build_indexes env g nodes edges)"
proof -
  have n: "index_new env ''node_id'' (map without_node_type nodes) []
       = map_sum id (map (apsnd without_node_type)) (index_new env ''node_id'' nodes [])"
    using index_new_without[of "''node_id''" env nodes "[]"] by simp
  show ?thesis
    unfolding build_indexes_def n
    by (auto simp: pbind_def split: sum.splits)
qed

lemma map_of_apsnd: "map_of (map (apsnd g) d) k = map_option g (map_of d k)"
  by (induction d) auto

lemma for_each_map: "for_each (map h xs) body = for_each xs (\<lambda>x. body (h x))"
  by (induction xs) simp_all

lemma for_each_cong:
  "(\<And>x. x \<in> set xs \<Longrightarrow> body x = body' x) \<Longrightarrow> for_each xs body = for_each xs body'"
  by (induction xs) simp_all

lemma delete_nodes_without:
  "delete_nodes env rv dbn (map (apsnd without_node_type) newn) = delete_nodes env rv dbn newn"
  by (simp add: delete_nodes_def map_of_apsnd)

lemma create_nodes_without:
  "create_nodes env rv dbn (map (apsnd without_node_type) newn) = create_nodes env rv dbn newn"
  unfolding create_nodes_def for_each_map
  by (rule for_each_cong) (auto simp: node_fields_without split: prod.splits)

lemma update_nodes_without:
  "update_nodes env rv dbn (map (apsnd without_node_type) newn) = update_nodes env rv dbn newn"
  unfolding update_nodes_def
  by (rule for_each_cong) (auto simp: map_of_apsnd node_fields_without split: prod.splits option.splits)

lemma sync_indexes_without:
  "sync_indexes env rv (dbn, map (apsnd without_node_type) newn, dbe, newe)
     = sync_indexes env rv (dbn, newn, dbe, newe)"
  by (simp add: sync_indexes_def delete_nodes_without create_nodes_without update_nodes_without)

lemma update_graph_without:
  "update_graph env version (map without_node_type nodes) edges
     = update_graph env version nodes edges"
proof -
  have k: "\<And>g. bind (lift_py (build_indexes env g (map without_node_type nodes) edges)) (\<lambda>idx.
        bind (resolve_version (Some version)) (\<lambda>rv. sync_indexes env rv idx))
      = bind (lift_py (build_indexes env g nodes edges)) (\<lambda>idx.
        bind (resolve_version (Some version)) (\<lambda>rv. sync_indexes env rv idx))"
  proof -
    fix g
    show "bind (lift_py (build_indexes env g (map without_node_type nodes) edges)) (\<lambda>idx.
        bind (resolve_version (Some version)) (\<lambda>rv. sync_indexes env rv idx))
      = bind (lift_py (build_indexes env g nodes edges)) (\<lambda>idx.
        bind (resolve_version (Some version)) (\<lambda>rv. sync_indexes env rv idx))"
    proof (cases "build_indexes env g nodes edges")
      case (Inl e)
      then show ?thesis by (simp add: build_indexes_without lift_py_def)
    next
      case (Inr idx)
      obtain dbn newn dbe newe where "idx = (dbn, newn, dbe, newe)" by (cases idx) auto
      with Inr show ?thesis
        by (simp add: build_indexes_without lift_py_def sync_indexes_without)
    qed
  qed
  show ?thesis unfolding update_graph_def k ..
qed

lemma same_node_no_call:
  assumes "map_of dbn k = Some d" and "map_of newn k = Some n" and "same_node env d n"
      and "call_differs env (dbn, newn, dbe, newe) c"
  shows "\<not> on_node k c"
  using assms by (cases c) (auto simp: node_differs_def)

lemma dict_set_values: "snd ` set (dict_set k v d) \<subseteq> insert v (snd ` set d)"
  by (induction d) auto

lemma index_new_values:
  "index_new env key ns acc = Inr r \<Longrightarrow> snd ` set r \<subseteq> set ns \<union> snd ` set acc"
proof (induction ns arbitrary: acc)
  case Nil
  then show ?case by auto
next
  case (Cons n ns)
  from Cons.prems obtain v where "index_new env key ns (dict_set (py_str env v) n acc) = Inr r"
    by (auto simp: pbind_def split: sum.splits)
  from Cons.IH[OF this] dict_set_values[of "py_str env v" n acc] show ?case by auto
qed

lemma build_indexes_values:
  assumes "build_indexes env g nodes edges = Inr (dbn, newn, dbe, newe)"
  shows "snd ` set newn \<subseteq> set nodes"
proof -
  from assms have "index_new env ''node_id'' nodes [] = Inr newn"
    by (auto simp: build_indexes_def pbind_def split: sum.splits)
  from index_new_values[OF this] show ?thesis by simp
qed

lemma carries_other:
  "phase c \<noteq> 1 \<Longrightarrow> phase c \<noteq> 2 \<Longrightarrow> carries_fields env objs c"
  by (cases c) simp_all

lemma carries_create_nodes:
  assumes sub: "snd ` set newn \<subseteq> set objs"
  shows "emits (create_nodes env rv dbn newn) (\<lambda>u. list_all (carries_fields env objs))
     (list_all (carries_fields env objs))"
  unfolding create_nodes_def
proof (rule emits_for_each_all)
  fix item assume i: "item \<in> set newn"
  obtain k n where item: "item = (k, n)" by (cases item)
  with i sub have n: "n \<in> set objs" by force
  show "emits (case item of (node_id_str, node_obj) \<Rightarrow>
       if map_of dbn node_id_str = None
       then bind (lift_py (node_fields env node_obj)) (\<lambda>new.
              case new of (name, pos_x, pos_y, picture_path, description) \<Rightarrow>
              node_create env (PStr node_id_str) name pos_x pos_y picture_path description (Some rv))
       else ret ())
     (\<lambda>u. list_all (carries_fields env objs)) (list_all (carries_fields env objs))"
  proof (cases "node_fields env n")
    case (Inl e)
    then show ?thesis by (simp add: item lift_py_def emits_raise emits_ret)
  next
    case (Inr new)
    obtain a b c d e where new: "new = (a, b, c, d, e)" by (cases new) auto
    have "emits (node_create env (PStr k) a b c d e (Some rv))
       (\<lambda>u. list_all (carries_fields env objs)) (list_all (carries_fields env objs))"
      by (rule emits_weaken[OF emits_node_create]) (use n Inr new in auto)
    with Inr new show ?thesis by (simp add: item lift_py_def emits_ret)
  qed
qed

lemma carries_update_nodes:
  assumes sub: "snd ` set newn \<subseteq> set objs"
  shows "emits (update_nodes env rv dbn newn) (\<lambda>u. list_all (carries_fields env objs))
     (list_all (carries_fields env objs))"
  unfolding update_nodes_def
proof (rule emits_for_each_all)
  fix item assume i: "item \<in> set dbn"
  obtain k db_node where item: "item = (k, db_node)" by (cases item)
  show "emits (case item of (node_id_str, db_node) \<Rightarrow>
       (case map_of newn node_id_str of
          None \<Rightarrow> ret ()
        | Some node_obj \<Rightarrow>
            bind (lift_py (node_fields env node_obj)) (\<lambda>new.
            bind (lift_py (need_update env db_node new)) (\<lambda>changed.
              if changed
              then (case new of (new_name, new_pos_x, new_pos_y, new_picture, new_desc) \<Rightarrow>
                      node_update env (PStr node_id_str) new_name new_pos_x new_pos_y
                        new_picture new_desc (Some rv))
              else ret ()))))
     (\<lambda>u. list_all (carries_fields env objs)) (list_all (carries_fields env objs))"
  proof (cases "map_of newn k")
    case None
    then show ?thesis by (simp add: item emits_ret)
  next
    case (Some n)
    then have "(k, n) \<in> set newn" by (rule map_of_SomeD)
    with sub have n: "n \<in> set objs" by force
    show ?thesis
    proof (cases "node_fields env n")
      case (Inl e)
      then show ?thesis by (simp add: item Some lift_py_def emits_raise)
    next
      case (Inr new)
      obtain a b c d e where new: "new = (a, b, c, d, e)" by (cases new) auto
      have up: "emits (node_update env (PStr k) a b c d e (Some rv))
         (\<lambda>u. list_all (carries_fields env objs)) (list_all (carries_fields env objs))"
        by (rule emits_weaken[OF emits_node_update]) (use n Inr new in auto)
      show ?thesis
      proof (cases "need_update env db_node new")
        case (Inl e)
        then show ?thesis by (simp add: item Some Inr lift_py_def emits_raise)
      next
        case changed: (Inr changed)
        with Inr new up show ?thesis
          by (cases changed) (simp_all add: item Some lift_py_def emits_ret)
      qed
    qed
  qed
qed

lemma carries_phase:
  assumes "emits m (\<lambda>u. list_all (\<lambda>c. phase c = p)) (list_all (\<lambda>c. phase c = p))"
      and "p \<noteq> 1" and "p \<noteq> 2"
  shows "emits m (\<lambda>u. list_all (carries_fields env objs)) (list_all (carries_fields env objs))"
  by (rule emits_weaken[OF assms(1)]) (use assms(2,3) in \<open>auto simp: list_all_iff intro: carries_other\<close>)

lemma paired_edge: "paired cs \<Longrightarrow> list_all (\<lambda>c. 3 \<le> phase c) cs"
  by (induction cs rule: paired.induct) simp_all

lemma reconciled_edge: "reconciled cs \<Longrightarrow> list_all (\<lambda>c. 3 \<le> phase c) cs"
  by (induction cs rule: reconciled.induct) simp_all

lemma carries_update_edges:
  "emits (update_edges env rv dbe newe) (\<lambda>u. list_all (carries_fields env objs))
     (list_all (carries_fields env objs))"
proof (rule emits_weaken[OF emits_update_edges])
  fix x :: unit and seg assume "paired seg"
  from paired_edge[OF this] show "list_all (carries_fields env objs) seg"
    by (auto simp: list_all_iff intro!: carries_other)
next
  fix seg assume "reconciled seg"
  from reconciled_edge[OF this] show "list_all (carries_fields env objs) seg"
    by (auto simp: list_all_iff intro!: carries_other)
qed

lemma carries_sync_indexes:
  assumes "snd ` set newn \<subseteq> set objs"
  shows "emits (sync_indexes env rv (dbn, newn, dbe, newe))
     (\<lambda>u. list_all (carries_fields env objs)) (list_all (carries_fields env objs))"
  unfolding sync_indexes_def prod.case
  by (intro emits_bind_all carries_create_nodes carries_update_nodes carries_update_edges assms
      carries_phase[OF emits_delete_nodes] carries_phase[OF emits_delete_edges]
      carries_phase[OF emits_create_edges]) simp_all

lemma update_graph_carries:
  assumes ug: "update_graph env version nodes edges s = (r, s')"
  shows "list_all (carries_fields env nodes) (new_calls s s')"
proof -
  obtain rg s1 where g: "graph_by_version_get env (Some version) s = (rg, s1)"
    by (cases "graph_by_version_get env (Some version) s")
  from emitsD[OF emits_graph_by_version_get g] have c1: "calls s1 = calls s"
    by (cases rg) simp_all
  show ?thesis
  proof (cases rg)
    case (Inl e)
    with ug g have "s' = s1" by (simp add: update_graph_def bind_def)
    with c1 show ?thesis by (simp add: new_calls_def)
  next
    case (Inr db_graph)
    show ?thesis
    proof (cases "build_indexes env db_graph nodes edges")
      case (Inl e)
      with ug g Inr have "s' = s1"
        by (simp add: update_graph_def bind_def lift_py_def raise_def)
      with c1 show ?thesis by (simp add: new_calls_def)
    next
      case bi: (Inr idx)
      obtain dbn newn dbe newe where idx: "idx = (dbn, newn, dbe, newe)" by (cases idx) auto
      from ug have run: "sync_indexes env version idx s1 = (r, s')"
        by (simp add: update_graph_def bind_def g Inr bi lift_py_def ret_def resolve_version_def)
      from emitsD[OF carries_sync_indexes[OF build_indexes_values[OF bi[unfolded idx]]]
          run[unfolded idx]] c1
      show ?thesis by (cases r) (auto simp: new_calls_def)
    qed
  qed
qed

text \<open>
  Claim C10. The \<^verbatim>\<open>node_type\<close> of an input node takes no part in the synchronisation:
  \<^verbatim>\<open>update_graph\<close> does the same, for every engine and every state, when \<^verbatim>\<open>node_type\<close> is
  taken away from every desired node; whether two nodes are the same does not depend on the
  \<^verbatim>\<open>node_type\<close> of either; for a persisted and a desired node of one id that are the same on
  name, positions, picture path and description, no call on that node is recorded; every
  recorded \<^verbatim>\<open>node_create\<close> and \<^verbatim>\<open>node_update\<close> carries exactly the five fields read from a
  desired node; and the parameters \<^verbatim>\<open>node_create\<close> hands to the renderer are the eight named
  ones, \<^verbatim>\<open>node_type\<close> not among them.
\<close>

theorem node_type_ignored:
  "update_graph env version (map without_node_type nodes) edges
     = update_graph env version nodes edges
   \<and> same_node env (without_node_type d) (without_node_type n) = same_node env d n
   \<and> (graph_by_version_get env (Some version) s = (Inr db_graph, s1)
        \<and> build_indexes env db_graph nodes edges = Inr (dbn, newn, dbe, newe)
        \<and> map_of dbn k = Some d \<and> map_of newn k = Some n \<and> same_node env d n
        \<and> update_graph env version nodes edges s = (r, s')
       \<longrightarrow> list_all (\<lambda>c. \<not> on_node k c) (new_calls s s'))
   \<and> (update_graph env version nodes edges s = (r, s')
       \<longrightarrow> list_all (carries_fields env nodes) (new_calls s s'))
   \<and> map fst (node_params env rv node_id name pos_x pos_y picture_path description)
       = [''investigation_name'', ''version'', ''node_id'', ''name'', ''pos_x'', ''pos_y'',
          ''picture_path'', ''description'']"
proof (intro conjI impI)
  show "update_graph env version (map without_node_type nodes) edges
     = update_graph env version nodes edges"
    by (rule update_graph_without)
  show "same_node env (without_node_type d) (without_node_type n) = same_node env d n"
    by (rule same_node_without)
  show "map fst (node_params env rv node_id name pos_x pos_y picture_path description)
       = [''investigation_name'', ''version'', ''node_id'', ''name'', ''pos_x'', ''pos_y'',
          ''picture_path'', ''description'']"
    by (simp add: node_params_def)
  {
    assume "update_graph env version nodes edges s = (r, s')"
    then show "list_all (carries_fields env nodes) (new_calls s s')"
      by (rule update_graph_carries)
  }
  {
    assume a: "graph_by_version_get env (Some version) s = (Inr db_graph, s1)
        \<and> build_indexes env db_graph nodes edges = Inr (dbn, newn, dbe, newe)
        \<and> map_of dbn k = Some d \<and> map_of newn k = Some n \<and> same_node env d n
        \<and> update_graph env version nodes edges s = (r, s')"
    then have "list_all (call_differs env (dbn, newn, dbe, newe)) (new_calls s s')"
      using update_graph_differs by blast
    with a show "list_all (\<lambda>c. \<not> on_node k c) (new_calls s s')"
      by (auto simp: list_all_iff dest: same_node_no_call)
  }
qed

lemma demo_node_run_calls:
  "calls (snd (update_graph
      (demo_env never [board_doc [alice_doc (PStr ''suspect'')] []]) ''v1''
      [alice_dto (PStr ''person''), bob_dto] [] (fresh None None)))
     = [NodeCreate (PStr ''2'') (PStr ''Bob'') (PFloat (Finite 30)) (PFloat (Finite 40))
          PNone PNone (Some ''v1'')]"
  by (simp add: update_graph_def bind_def graph_by_version_get_demo lift_py_def build_indexes_def
      pbind_def board_doc_def alice_doc_def alice_dto_def bob_dto_def ret_def raise_def
      resolve_version_def sync_indexes_def
      delete_nodes_def create_nodes_def update_nodes_def delete_edges_def create_edges_def
      update_edges_def dict_keys_def node_fields_def need_update_def demo_writes wrote_def
      fresh_def ne_basic_def Let_def)

lemma demo_node_indexes:
  "build_indexes (demo_env never d) (board_doc [alice_doc (PStr ''suspect'')] [])
      [alice_dto (PStr ''person''), bob_dto] []
    = Inr ([(''1'', alice_doc (PStr ''suspect''))],
           [(''1'', alice_dto (PStr ''person'')), (''2'', bob_dto)], [], [])"
  by (simp add: build_indexes_def pbind_def board_doc_def alice_doc_def alice_dto_def bob_dto_def)

lemma demo_same_alice:
  "same_node (demo_env never d) (alice_doc (PStr ''suspect'')) (alice_dto (PStr ''person''))"
  by (simp add: same_node_def node_fields_def need_update_def pbind_def alice_doc_def
      alice_dto_def ne_basic_def)

theorem node_type_ignored_witness:
  "update_graph (demo_env never [board_doc [alice_doc (PStr ''suspect'')] []]) ''v1''
       (map without_node_type [alice_dto (PStr ''person''), bob_dto]) []
     = update_graph (demo_env never [board_doc [alice_doc (PStr ''suspect'')] []]) ''v1''
       [alice_dto (PStr ''person''), bob_dto] []
   \<and> same_node (demo_env never [board_doc [alice_doc (PStr ''suspect'')] []])
        (alice_doc (PStr ''suspect'')) (alice_dto (PStr ''person''))
   \<and> list_all (\<lambda>c. \<not> on_node ''1'' c)
        [NodeCreate (PStr ''2'') (PStr ''Bob'') (PFloat (Finite 30)) (PFloat (Finite 40))
          PNone PNone (Some ''v1'')]
   \<and> list_all (carries_fields (demo_env never [board_doc [alice_doc (PStr ''suspect'')] []])
          [alice_dto (PStr ''person''), bob_dto])
        [NodeCreate (PStr ''2'') (PStr ''Bob'') (PFloat (Finite 30)) (PFloat (Finite 40))
          PNone PNone (Some ''v1'')]"
proof -
  let ?E = "demo_env never [board_doc [alice_doc (PStr ''suspect'')] []]"
  let ?s1 = "(fresh None None)\<lparr>trace := [(OpenTx ''investigation_board'' READ, True),
          (TxQuery 0 ''graph-by-version-get'', True), (TxDocs 0, True), (TxClose 0, True)]\<rparr>"
  let ?X = "update_graph ?E ''v1'' [alice_dto (PStr ''person''), bob_dto] [] (fresh None None)"
  have g: "graph_by_version_get ?E (Some ''v1'') (fresh None None)
     = (Inr (board_doc [alice_doc (PStr ''suspect'')] []), ?s1)"
    by (simp add: graph_by_version_get_demo fresh_def)
  have x: "?X = (fst ?X, snd ?X)" by simp
  have n: "new_calls (fresh None None) (snd ?X) = calls (snd ?X)"
    by (simp add: new_calls_def fresh_def)
  have l1: "map_of [(''1'', alice_doc (PStr ''suspect''))] ''1'' = Some (alice_doc (PStr ''suspect''))"
    by simp
  have l2: "map_of [(''1'', alice_dto (PStr ''person'')), (''2'', bob_dto)] ''1''
      = Some (alice_dto (PStr ''person''))"
    by simp
  note t = node_type_ignored[of ?E "''v1''" "[alice_dto (PStr ''person''), bob_dto]" "[]"
      "alice_doc (PStr ''suspect'')" "alice_dto (PStr ''person'')" "fresh None None"
      "board_doc [alice_doc (PStr ''suspect'')] []" ?s1
      "[(''1'', alice_doc (PStr ''suspect''))]"
      "[(''1'', alice_dto (PStr ''person'')), (''2'', bob_dto)]" "[]" "[]" "''1''"
      "fst ?X" "snd ?X"]
  from t g demo_node_indexes l1 l2 demo_same_alice x
  have a: "list_all (\<lambda>c. \<not> on_node ''1'' c) (calls (snd ?X))"
    unfolding n by blast
  from t x have b: "list_all (carries_fields ?E [alice_dto (PStr ''person''), bob_dto]) (calls (snd ?X))"
    unfolding n by blast
  from t have c: "update_graph ?E ''v1'' (map without_node_type [alice_dto (PStr ''person''), bob_dto]) []
     = update_graph ?E ''v1'' [alice_dto (PStr ''person''), bob_dto] []"
    by blast
  from a b c demo_same_alice show ?thesis
    unfolding demo_node_run_calls by blast
qed

end
